theory Spec2Isabelle
  imports Complex_Main "HOL-Library.Word"
begin

section \<open>Strings\<close>

text \<open>
  A JavaScript string is its sequence of UTF-16 code units; \<open>str\<close> turns a literal of the
  source into one. \<open>isWhiteSpace\<close> holds of the white space and line terminators of
  ECMAScript, which \<open>String.prototype.trim\<close> removes from both ends: TAB, LF, VT, FF, CR,
  SPACE, NO-BREAK SPACE, U+1680, U+2000 to U+200A, U+2028, U+2029, U+202F, U+205F, U+3000
  and U+FEFF.

  \<open>toLowerCase\<close> maps \<open>A\<close>..\<open>Z\<close> to \<open>a\<close>..\<open>z\<close>, KELVIN SIGN (U+212A) to \<open>k\<close> and U+0130 to
  \<open>i\<close> followed by U+0307: these are the code points whose lower case contains a Basic
  Latin letter. It leaves every other code unit as it is, where the source maps it by
  the Unicode tables to code units outside Basic Latin; so the result equals a string of
  Basic Latin letters exactly when the source's result does.
\<close>

type_synonym jsstring = "16 word list"

definition str :: "string \<Rightarrow> jsstring" where
  "str s = map of_char s"

definition isWhiteSpace :: "16 word \<Rightarrow> bool" where
  "isWhiteSpace c =
     (c \<in> set [0x0009, 0x000A, 0x000B, 0x000C, 0x000D, 0x0020, 0x00A0, 0x1680, 0x2028, 0x2029,
                0x202F, 0x205F, 0x3000, 0xFEFF]
      \<or> (0x2000 \<le> c \<and> c \<le> 0x200A))"

definition trim :: "jsstring \<Rightarrow> jsstring" where
  "trim s = rev (dropWhile isWhiteSpace (rev (dropWhile isWhiteSpace s)))"

definition lowerUnit :: "16 word \<Rightarrow> jsstring" where
  "lowerUnit c =
     (if 0x41 \<le> c \<and> c \<le> 0x5A then [c + 0x20]
      else if c = 0x212A then [0x6B]
      else if c = 0x0130 then [0x69, 0x0307]
      else [c])"

definition toLowerCase :: "jsstring \<Rightarrow> jsstring" where
  "toLowerCase s = concat (map lowerUnit s)"

section \<open>The host component (index.ts)\<close>

datatype CommandAction = Print | Download

record CommandRequest =
  cmd_id :: jsstring
  cmd_action :: CommandAction
  raw :: jsstring

datatype CommandStatus = Completed | Failed

record CommandResult =
  res_id :: jsstring
  res_action :: CommandAction
  res_status :: CommandStatus
  res_message :: "jsstring option"

datatype PdfStatus = Idle | Generating | Ready | Error

record PdfOutputUpdate =
  upd_status :: PdfStatus
  upd_base64 :: "jsstring option"
  upd_fileName :: "jsstring option"
  upd_message :: "jsstring option"

text \<open>
  \<open>CommandAck\<close> without its \<open>timestamp\<close>, which \<open>updateCommandAck\<close> reads from the
  clock. The \<open>action\<close> of an acknowledgment is a plain string in the source.
\<close>

record CommandAck =
  ack_id :: jsstring
  ack_action :: jsstring
  ack_status :: CommandStatus
  ack_message :: "jsstring option"

fun actionName :: "CommandAction \<Rightarrow> jsstring" where
  "actionName Print = (str ''print'')"
| "actionName Download = (str ''download'')"

text \<open>
  The value \<open>JSON.parse\<close> returns. An object is the list of its own properties, each
  name once; a property read is \<^const>\<open>map_of\<close>.
\<close>

datatype json =
    JNull
  | JBool bool
  | JNumber rat
  | JString jsstring
  | JArray "json list"
  | JObject "(jsstring \<times> json) list"

text \<open>
  \<open>parseActionCommand\<close> after the call of \<open>JSON.parse\<close>: \<open>None\<close> is the exception
  that \<open>JSON.parse\<close> throws. The result is \<open>Inl error\<close> or \<open>Inr command\<close>.
\<close>

definition quoted :: "jsstring \<Rightarrow> jsstring" where
  "quoted s = 0x22 # s @ [0x22]"

fun stringField :: "json option \<Rightarrow> jsstring" where
  "stringField (Some (JString s)) = s"
| "stringField _ = []"

fun parseParsed :: "json option \<Rightarrow> jsstring \<Rightarrow> jsstring + CommandRequest" where
  "parseParsed None r = Inl (str ''Invalid actionCommand JSON.'')"
| "parseParsed (Some (JObject props)) r =
     (let id = trim (stringField (map_of props (str ''id'')));
          actionRaw = toLowerCase (trim (stringField (map_of props (str ''action''))))
      in if id = [] then Inl (str ''actionCommand.id is required.'')
         else if actionRaw \<noteq> (str ''print'') \<and> actionRaw \<noteq> (str ''download'')
           then Inl ((str ''actionCommand.action must be '') @ quoted (str ''print'') @ (str '' or '')
                       @ quoted (str ''download'') @ (str ''.''))
         else Inr \<lparr>cmd_id = id,
                   cmd_action = (if actionRaw = (str ''print'') then Print else Download),
                   raw = r\<rparr>)"
| "parseParsed (Some _) r = Inl (str ''actionCommand must be a JSON object.'')"

definition parseActionCommand :: "(jsstring \<Rightarrow> json option) \<Rightarrow> jsstring \<Rightarrow> jsstring + CommandRequest" where
  "parseActionCommand JSON_parse r = parseParsed (JSON_parse r) r"

record HtmlToPdfComponent =
  lastCommandAck :: "CommandAck option"
  pdfBase64 :: jsstring
  pdfFileName :: jsstring
  pdfStatus :: jsstring
  lastActionCommandRaw :: jsstring
  pendingInlineCommand :: "CommandRequest option"
  acks :: "CommandAck list"
  popups :: nat

text \<open>
  The field initialisers of the class. \<open>acks\<close> lists every acknowledgment handed to
  \<open>updateCommandAck\<close>, oldest first; \<open>popups\<close> counts the calls of \<open>openPrintPopup\<close>
  made for a command.
\<close>

definition initComponent :: HtmlToPdfComponent where
  "initComponent =
     \<lparr>lastCommandAck = None, pdfBase64 = [], pdfFileName = [], pdfStatus = (str ''idle''),
      lastActionCommandRaw = [], pendingInlineCommand = None, acks = [], popups = 0\<rparr>"

definition updateCommandAck :: "CommandAck \<Rightarrow> HtmlToPdfComponent \<Rightarrow> HtmlToPdfComponent" where
  "updateCommandAck ack c = c\<lparr>lastCommandAck := Some ack, acks := acks c @ [ack]\<rparr>"

definition orEmpty :: "jsstring option \<Rightarrow> jsstring" where
  "orEmpty v = (case v of None \<Rightarrow> [] | Some s \<Rightarrow> s)"

definition handlePdfOutput :: "PdfOutputUpdate \<Rightarrow> HtmlToPdfComponent \<Rightarrow> HtmlToPdfComponent" where
  "handlePdfOutput update c =
     (if upd_status update = Generating
        then c\<lparr>pdfStatus := (str ''generating''), pdfBase64 := [], pdfFileName := []\<rparr>
      else if upd_status update = Ready
        then c\<lparr>pdfStatus := (str ''ready''), pdfBase64 := orEmpty (upd_base64 update),
               pdfFileName := orEmpty (upd_fileName update)\<rparr>
      else if upd_status update = Error
        then c\<lparr>pdfStatus := (str ''error''), pdfBase64 := [], pdfFileName := []\<rparr>
      else c\<lparr>pdfStatus := (str ''idle''), pdfBase64 := [], pdfFileName := []\<rparr>)"

record IOutputs =
  out_lastCommandAck :: "CommandAck option"
  out_pdfBase64 :: jsstring
  out_pdfFileName :: jsstring
  out_pdfStatus :: jsstring

definition getOutputs :: "HtmlToPdfComponent \<Rightarrow> IOutputs" where
  "getOutputs c =
     \<lparr>out_lastCommandAck = lastCommandAck c, out_pdfBase64 = pdfBase64 c,
      out_pdfFileName = pdfFileName c, out_pdfStatus = pdfStatus c\<rparr>"

datatype RenderMode = Inline | Popup

text \<open>
  \<open>handlePopupCommand\<close>. \<open>opened\<close> is what \<open>openPrintPopup\<close> returns: whether the browser
  gave a window. The alerts of \<open>warnOnUnsupportedAssets\<close> go to the user and are not
  part of the component's state.
\<close>

definition handlePopupCommand ::
  "CommandRequest \<Rightarrow> jsstring \<Rightarrow> bool \<Rightarrow> HtmlToPdfComponent \<Rightarrow> HtmlToPdfComponent" where
  "handlePopupCommand command html opened c =
     (if trim html = []
        then updateCommandAck
               \<lparr>ack_id = cmd_id command, ack_action = actionName (cmd_action command),
                ack_status = Failed, ack_message = Some (str ''No HTML content is available.'')\<rparr> c
      else if cmd_action command = Download
        then updateCommandAck
               \<lparr>ack_id = cmd_id command, ack_action = actionName (cmd_action command),
                ack_status = Failed,
                ack_message = Some ((str ''Download command is only supported in '') @ quoted (str ''inline'')
                                     @ (str '' renderMode.''))\<rparr> c
      else updateCommandAck
             \<lparr>ack_id = cmd_id command, ack_action = actionName (cmd_action command),
              ack_status = (if opened then Completed else Failed),
              ack_message = (if opened then None
                             else Some (str ''Popup blocked. Please allow popups for this site and try again.''))\<rparr>
             (c\<lparr>popups := popups c + 1\<rparr>))"

definition handleInlineCommandResult :: "CommandResult \<Rightarrow> HtmlToPdfComponent \<Rightarrow> HtmlToPdfComponent" where
  "handleInlineCommandResult result c =
     updateCommandAck
       \<lparr>ack_id = res_id result, ack_action = actionName (res_action result),
        ack_status = res_status result, ack_message = res_message result\<rparr>
       (c\<lparr>pendingInlineCommand := None\<rparr>)"

text \<open>
  The inputs of \<open>updateView\<close> that its command dispatch reads: \<open>actionCommand.raw\<close>, the
  render mode (after \<open>asRenderMode\<close>) and the HTML after the line-break replacement.
  \<open>updateView\<close> below is that dispatch; the HTML outputs and the element it returns
  are not part of the model, and \<open>JSON.parse\<close> is a parameter.
\<close>

record Inputs =
  in_actionCommand :: "jsstring option"
  in_renderMode :: RenderMode
  in_html :: jsstring

definition updateView ::
  "(jsstring \<Rightarrow> json option) \<Rightarrow> Inputs \<Rightarrow> bool \<Rightarrow> HtmlToPdfComponent \<Rightarrow> HtmlToPdfComponent" where
  "updateView JSON_parse inputs opened c =
     (let actionCommandRaw = trim (orEmpty (in_actionCommand inputs))
      in if actionCommandRaw \<noteq> lastActionCommandRaw c
           then (let c1 = c\<lparr>lastActionCommandRaw := actionCommandRaw\<rparr>
                 in if actionCommandRaw \<noteq> []
                      then (case parseActionCommand JSON_parse actionCommandRaw of
                              Inl err \<Rightarrow>
                                updateCommandAck
                                  \<lparr>ack_id = [], ack_action = (str ''unknown''), ack_status = Failed,
                                   ack_message = Some err\<rparr> c1
                            | Inr command \<Rightarrow>
                                if in_renderMode inputs = Popup
                                  then handlePopupCommand command (in_html inputs) opened c1
                                  else c1\<lparr>pendingInlineCommand := Some command\<rparr>)
                      else c1)
           else c)"

datatype ComponentEvent =
    UpdateView Inputs bool
  | PdfOutput PdfOutputUpdate
  | InlineCommandResult CommandResult

fun componentStep ::
  "(jsstring \<Rightarrow> json option) \<Rightarrow> HtmlToPdfComponent \<Rightarrow> ComponentEvent \<Rightarrow> HtmlToPdfComponent" where
  "componentStep JSON_parse c (UpdateView inputs opened) = updateView JSON_parse inputs opened c"
| "componentStep JSON_parse c (PdfOutput update) = handlePdfOutput update c"
| "componentStep JSON_parse c (InlineCommandResult result) = handleInlineCommandResult result c"

definition runComponent ::
  "(jsstring \<Rightarrow> json option) \<Rightarrow> ComponentEvent list \<Rightarrow> HtmlToPdfComponent" where
  "runComponent JSON_parse evs = foldl (componentStep JSON_parse) initComponent evs"

section \<open>The pagination pipeline (handleDownload, try block)\<close>

text \<open>
  A PDF page of this program holds one drawn image; \<open>img_x\<close> and \<open>img_y\<close> are the
  arguments of \<open>page.drawImage\<close>: the position of the image's lower left corner,
  measured from the lower left corner of the page, with y growing upwards. A capture
  has its pixel width and height; embedding it in the PDF is taken to succeed.

  The constants and the placement of a single page are in exact arithmetic: there the
  rounding of the source's doubles moves a coordinate by an ulp and decides nothing.
  The slicing loop compares an accumulated offset with the scaled height, so it is
  modelled in doubles, further below.
\<close>

definition pageWidth :: rat where "pageWidth = 59528 / 100"
definition pageHeight :: rat where "pageHeight = 84189 / 100"
definition margin :: rat where "margin = 36"
definition availableWidth :: rat where "availableWidth = pageWidth - margin * 2"
definition availableHeight :: rat where "availableHeight = pageHeight - margin * 2"

record Canvas =
  png_width :: nat
  png_height :: nat

record PdfPage =
  page_width :: rat
  page_height :: rat
  img_x :: rat
  img_y :: rat
  img_width :: rat
  img_height :: rat

definition addCanvasAsSinglePage :: "Canvas \<Rightarrow> PdfPage list \<Rightarrow> PdfPage list" where
  "addCanvasAsSinglePage canvas pdfDoc =
     (let scale = min (availableWidth / of_nat (png_width canvas))
                      (availableHeight / of_nat (png_height canvas));
          scaledWidth = of_nat (png_width canvas) * scale;
          scaledHeight = of_nat (png_height canvas) * scale;
          x = margin + (availableWidth - scaledWidth) / 2;
          y = pageHeight - margin - scaledHeight
      in pdfDoc @ [\<lparr>page_width = pageWidth, page_height = pageHeight,
                    img_x = x, img_y = y, img_width = scaledWidth, img_height = scaledHeight\<rparr>])"

subsection \<open>Doubles\<close>

text \<open>
  A finite IEEE-754 double is the rational number it stands for. \<open>double\<close> rounds a
  rational to the nearest double, ties to the even significand: with \<open>2 ^ e \<le> |x| <
  2 ^ (e + 1)\<close> the doubles around \<open>x\<close> are the multiples of \<open>2 ^ (e - 52)\<close>. Every
  operation of the source on numbers is the exact operation followed by \<open>double\<close>, and a
  decimal literal is \<open>double\<close> of its value. Overflow to infinity and subnormal numbers
  are not modelled; the numbers of the pipeline are far from both.
\<close>

definition pow2 :: "int \<Rightarrow> rat" where
  "pow2 k = (if 0 \<le> k then 2 ^ nat k else 1 / 2 ^ nat (- k))"

function bitLength :: "int \<Rightarrow> int" where
  "bitLength n = (if n \<le> 0 then 0 else 1 + bitLength (n div 2))"
  by pat_completeness auto
termination
  by (relation "measure nat") auto

declare bitLength.simps [simp del]

text \<open>The exponent \<open>e\<close> with \<open>2 ^ e \<le> x < 2 ^ (e + 1)\<close>, for \<open>x > 0\<close>.\<close>

definition binaryExponent :: "rat \<Rightarrow> int" where
  "binaryExponent x =
     (let k = bitLength (fst (quotient_of x)) - bitLength (snd (quotient_of x))
      in if pow2 k \<le> x then k else k - 1)"

definition roundHalfEven :: "rat \<Rightarrow> int" where
  "roundHalfEven x =
     (let f = \<lfloor>x\<rfloor>; r = x - of_int f
      in if r < 1 / 2 then f else if 1 / 2 < r then f + 1 else if even f then f else f + 1)"

definition double :: "rat \<Rightarrow> rat" where
  "double x =
     (if x = 0 then 0
      else (let a = \<bar>x\<bar>; ulp = pow2 (binaryExponent a - 52)
            in sgn x * of_int (roundHalfEven (a / ulp)) * ulp))"

text \<open>The constants of \<open>handleDownload\<close> as the doubles the source computes.\<close>

definition pageWidth_d :: rat where "pageWidth_d = double (59528 / 100)"
definition pageHeight_d :: rat where "pageHeight_d = double (84189 / 100)"
definition availableWidth_d :: rat where "availableWidth_d = double (pageWidth_d - margin * 2)"
definition availableHeight_d :: rat where "availableHeight_d = double (pageHeight_d - margin * 2)"

subsection \<open>Slicing\<close>

text \<open>
  The \<open>while\<close> loop of \<open>addCanvasAsSlicedPages\<close>: each round adds a page to the document
  and adds \<open>availableHeight\<close> to \<open>offsetY\<close>, in doubles. The result is the document when the
  loop ends and \<open>None\<close> when it never does.
\<close>

partial_function (option) slicePages ::
  "rat \<Rightarrow> rat \<Rightarrow> PdfPage list \<Rightarrow> rat \<Rightarrow> PdfPage list option" where
  "slicePages scaledWidth scaledHeight pdfDoc offsetY =
     (if offsetY < scaledHeight
        then slicePages scaledWidth scaledHeight
               (pdfDoc @
                  [\<lparr>page_width = pageWidth_d, page_height = pageHeight_d, img_x = margin,
                    img_y = double (double (double (pageHeight_d - margin) - scaledHeight) + offsetY),
                    img_width = scaledWidth, img_height = scaledHeight\<rparr>])
               (double (offsetY + availableHeight_d))
        else Some pdfDoc)"

declare slicePages.simps [code]

text \<open>
  \<open>addCanvasAsSlicedPages\<close>. For a capture of width 0 the source's scale is infinite:
  the scaled height is then infinite and the loop never ends, or, for height 0, it is
  not a number and the loop adds nothing.
\<close>

definition addCanvasAsSlicedPages :: "Canvas \<Rightarrow> PdfPage list \<Rightarrow> PdfPage list option" where
  "addCanvasAsSlicedPages canvas pdfDoc =
     (if png_width canvas = 0
        then (if png_height canvas = 0 then Some pdfDoc else None)
        else (let scale = double (availableWidth_d / of_nat (png_width canvas));
                  scaledWidth = availableWidth_d;
                  scaledHeight = double (of_nat (png_height canvas) * scale)
              in slicePages scaledWidth scaledHeight pdfDoc 0))"

subsection \<open>The rendered document and its page markers\<close>

text \<open>
  The children of \<open>doc.body\<close>: an element has a local name, an \<open>id\<close> attribute (empty when
  absent) and children. A boundary point of a DOM range is a position in the document's
  sequence of start tags, end tags and character data, in tree order: position \<open>0\<close> is
  \<open>(body, 0)\<close>, the position of a start tag is the point before that element, and the
  length of the sequence is \<open>(body, body.childNodes.length)\<close>.
\<close>

datatype node =
    Element jsstring jsstring "node list"
  | Text jsstring
  | Comment jsstring

datatype token = Open jsstring jsstring | Close | Chars jsstring | Remark jsstring

fun tokens :: "node \<Rightarrow> token list" where
  "tokens (Element name ident children) = Open name ident # concat (map tokens children) @ [Close]"
| "tokens (Text s) = [Chars s]"
| "tokens (Comment s) = [Remark s]"

definition bodyTokens :: "node list \<Rightarrow> token list" where
  "bodyTokens body = concat (map tokens body)"

text \<open>The selector \<open>div[id='page'], div[id^='page-']\<close>.\<close>

fun matchesSelector :: "token \<Rightarrow> bool" where
  "matchesSelector (Open name ident) =
     (name = (str ''div'') \<and> (ident = (str ''page'') \<or> take 5 ident = (str ''page-'')))"
| "matchesSelector _ = False"

text \<open>\<open>querySelectorAll\<close> lists the matching elements in document order.\<close>

definition querySelectorAll :: "token list \<Rightarrow> nat list" where
  "querySelectorAll toks = filter (\<lambda>k. matchesSelector (toks ! k)) [0..<length toks]"

text \<open>
  A range is its start and end position. \<open>setStart\<close> and \<open>setEnd\<close> keep the start at or
  before the end, as the DOM does: a start after the end moves the end, an end before the
  start moves the start. \<open>createRange\<close> is collapsed at the start of the document.
\<close>

definition createRange :: "nat \<times> nat" where
  "createRange = (0, 0)"

definition setStart :: "nat \<Rightarrow> nat \<times> nat \<Rightarrow> nat \<times> nat" where
  "setStart p r = (if snd r < p then (p, p) else (p, snd r))"

definition setEnd :: "nat \<Rightarrow> nat \<times> nat \<Rightarrow> nat \<times> nat" where
  "setEnd p r = (if p < fst r then (p, p) else (fst r, p))"

text \<open>The range built by one round of the marker loop of \<open>handleDownload\<close>.\<close>

definition segmentRange :: "nat list \<Rightarrow> nat \<Rightarrow> nat \<Rightarrow> nat \<times> nat" where
  "segmentRange pageMarkerDivs bodyEnd index =
     (let r0 = createRange;
          r1 = (if index = 0 then setStart 0 r0 else setStart (pageMarkerDivs ! index) r0)
      in if index + 1 < length pageMarkerDivs
           then setEnd (pageMarkerDivs ! (index + 1)) r1
           else setEnd bodyEnd r1)"

definition segmentRanges :: "node list \<Rightarrow> (nat \<times> nat) list" where
  "segmentRanges body =
     (let toks = bodyTokens body; pageMarkerDivs = querySelectorAll toks
      in map (segmentRange pageMarkerDivs (length toks)) [0..<length pageMarkerDivs])"

definition rangeContents :: "token list \<Rightarrow> nat \<times> nat \<Rightarrow> token list" where
  "rangeContents toks r = take (snd r - fst r) (drop (fst r) toks)"

subsection \<open>The segment rasterizer and the marker loop\<close>

text \<open>A node has \<open>nodeType\<close> 3 exactly when it is a text node; its \<open>textContent\<close> is its data.\<close>

fun isIgnorableNode :: "node \<Rightarrow> bool" where
  "isIgnorableNode (Text s) = (trim s = [])"
| "isIgnorableNode _ = False"

text \<open>
  \<open>renderNodeSegmentAsCanvas\<close>: \<open>html2canvas\<close> is given the children of the off-screen host,
  the clones of all nodes of the segment, and returns a canvas or throws (\<open>Inl\<close>). The
  result \<open>Inr None\<close> is the source's \<open>null\<close>.
\<close>

definition renderNodeSegmentAsCanvas ::
  "(node list \<Rightarrow> jsstring + Canvas) \<Rightarrow> node list \<Rightarrow> jsstring + Canvas option" where
  "renderNodeSegmentAsCanvas html2canvas nodes =
     (let significant = filter (\<lambda>n. \<not> isIgnorableNode n) nodes
      in if length significant = 0 then Inr None
         else (case html2canvas nodes of Inl e \<Rightarrow> Inl e | Inr canvas \<Rightarrow> Inr (Some canvas)))"

text \<open>
  The body of the marker loop over the ranges, in order. \<open>cloneContents\<close> gives the child
  nodes of the fragment that \<open>range.cloneContents()\<close> returns.
\<close>

fun markerLoop ::
  "(nat \<times> nat \<Rightarrow> node list) \<Rightarrow> (node list \<Rightarrow> jsstring + Canvas) \<Rightarrow> (nat \<times> nat) list
     \<Rightarrow> PdfPage list \<Rightarrow> jsstring + PdfPage list" where
  "markerLoop cloneContents html2canvas [] pdfDoc = Inr pdfDoc"
| "markerLoop cloneContents html2canvas (rng # rest) pdfDoc =
     (case renderNodeSegmentAsCanvas html2canvas (cloneContents rng) of
        Inl e \<Rightarrow> Inl e
      | Inr None \<Rightarrow> markerLoop cloneContents html2canvas rest pdfDoc
      | Inr (Some canvas) \<Rightarrow>
          markerLoop cloneContents html2canvas rest (addCanvasAsSinglePage canvas pdfDoc))"

text \<open>
  \<open>range.cloneContents()\<close>, after the DOM standard: the child nodes of the fragment are
  rebuilt from the contents of the range. An element that starts inside the range and
  ends after it is cloned with the children that lie inside; an element that started
  before the range and ends inside it is cloned around the nodes gathered so far.
  \<open>openElements\<close> lists the elements open at a position, innermost first. A frame is
  an element that has started, with its children so far.
\<close>

fun openElements :: "(jsstring \<times> jsstring) list \<Rightarrow> token list \<Rightarrow> (jsstring \<times> jsstring) list" where
  "openElements stack [] = stack"
| "openElements stack (Open name ident # toks) = openElements ((name, ident) # stack) toks"
| "openElements stack (Close # toks) = openElements (tl stack) toks"
| "openElements stack (_ # toks) = openElements stack toks"

fun attach ::
  "node \<Rightarrow> (jsstring \<times> jsstring \<times> node list) list \<Rightarrow> node list
     \<Rightarrow> (jsstring \<times> jsstring \<times> node list) list \<times> node list" where
  "attach nd [] roots = ([], roots @ [nd])"
| "attach nd ((name, ident, children) # frames) roots = ((name, ident, children @ [nd]) # frames, roots)"

fun closeAll :: "(jsstring \<times> jsstring \<times> node list) list \<Rightarrow> node list \<Rightarrow> node list" where
  "closeAll [] roots = roots"
| "closeAll [(name, ident, children)] roots = roots @ [Element name ident children]"
| "closeAll ((name, ident, children) # (name', ident', children') # frames) roots =
     closeAll ((name', ident', children' @ [Element name ident children]) # frames) roots"

fun rebuild ::
  "(jsstring \<times> jsstring \<times> node list) list \<Rightarrow> node list \<Rightarrow> (jsstring \<times> jsstring) list
     \<Rightarrow> token list \<Rightarrow> node list" where
  "rebuild frames roots ancestors [] = closeAll frames roots"
| "rebuild frames roots ancestors (Chars s # toks) =
     rebuild (fst (attach (Text s) frames roots)) (snd (attach (Text s) frames roots))
       ancestors toks"
| "rebuild frames roots ancestors (Remark s # toks) =
     rebuild (fst (attach (Comment s) frames roots)) (snd (attach (Comment s) frames roots))
       ancestors toks"
| "rebuild frames roots ancestors (Open name ident # toks) =
     rebuild ((name, ident, []) # frames) roots ancestors toks"
| "rebuild ((name, ident, children) # frames) roots ancestors (Close # toks) =
     rebuild (fst (attach (Element name ident children) frames roots))
       (snd (attach (Element name ident children) frames roots)) ancestors toks"
| "rebuild [] roots ((name, ident) # ancestors) (Close # toks) =
     rebuild [] [Element name ident roots] ancestors toks"
| "rebuild [] roots [] (Close # toks) = rebuild [] roots [] toks"

definition Range_cloneContents :: "token list \<Rightarrow> nat \<times> nat \<Rightarrow> node list" where
  "Range_cloneContents toks r =
     rebuild [] [] (openElements [] (take (fst r) toks)) (rangeContents toks r)"

text \<open>
  The pages of the document: the marker path when the selector matches, the slicing of
  one capture of the whole document (\<open>wholeCapture\<close>) otherwise. \<open>None\<close> is a slicing
  loop that never ends.
\<close>

definition buildPages ::
  "(node list \<Rightarrow> jsstring + Canvas) \<Rightarrow> jsstring + Canvas \<Rightarrow> node list
     \<Rightarrow> (jsstring + PdfPage list) option" where
  "buildPages html2canvas wholeCapture body =
     (let pageMarkerDivs = querySelectorAll (bodyTokens body);
          hasPageMarkers = (length pageMarkerDivs > 0)
      in if hasPageMarkers
           then Some (markerLoop (Range_cloneContents (bodyTokens body)) html2canvas
                        (segmentRanges body) [])
           else (case wholeCapture of
                   Inl e \<Rightarrow> Some (Inl e)
                 | Inr canvas \<Rightarrow> map_option Inr (addCanvasAsSlicedPages canvas [])))"

section \<open>The preview component (PrintPreview)\<close>

text \<open>
  The React state (\<open>ready\<close>, \<open>downloading\<close>, \<open>pendingCommand\<close>) and the refs of
  \<open>PrintPreview\<close>, followed by what the component has done so far: the calls of
  \<open>props.onPdfOutput\<close> and of \<open>props.onCommandResult\<close> (each with the \<open>raw\<close> of the
  command it reports), the commands whose \<open>execute\<close> has started, the calls of
  \<open>win.print()\<close> and the entries into the \<open>try\<close> block of \<open>handleDownload\<close>.
  \<open>awaitedBy\<close> is the command whose \<open>execute\<close> is suspended at \<open>await handleDownload()\<close>.
  Handlers and effects read the current state. The callbacks \<open>props.onBeforePrint\<close> and
  \<open>props.onBeforeDownload\<close> (the asset warnings of the host) return normally and do not
  touch this state. A handler that throws or returns before its first \<open>await\<close> settles
  within the step that called it.
\<close>

record PrintPreview =
  ready :: bool
  downloading :: bool
  pendingCommand :: "CommandRequest option"
  lastQueuedCommandRaw :: jsstring
  executingCommandRaw :: jsstring
  completedCommandRaw :: jsstring
  downloadInFlight :: bool
  lastDownloadStartedAt :: int
  awaitedBy :: "CommandRequest option"
  pdfOutputs :: "PdfOutputUpdate list"
  commandResults :: "(jsstring \<times> CommandResult) list"
  executions :: "CommandRequest list"
  printCalls :: nat
  pipelineRuns :: nat

definition initPreview :: PrintPreview where
  "initPreview =
     \<lparr>ready = False, downloading = False, pendingCommand = None, lastQueuedCommandRaw = [],
      executingCommandRaw = [], completedCommandRaw = [], downloadInFlight = False,
      lastDownloadStartedAt = 0, awaitedBy = None, pdfOutputs = [], commandResults = [],
      executions = [], printCalls = 0, pipelineRuns = 0\<rparr>"

text \<open>
  What the handlers throw. \<open>GenerationFailed m\<close> is a value thrown inside the \<open>try\<close>
  block; \<open>m\<close> is its message when it is an \<open>Error\<close>.
\<close>

datatype error = NotReady | Busy | IframeUnavailable | GenerationFailed "jsstring option"

fun errorMessage :: "error \<Rightarrow> jsstring option" where
  "errorMessage NotReady = Some (str ''Preview is not ready yet.'')"
| "errorMessage Busy = Some (str ''A download is already in progress.'')"
| "errorMessage IframeUnavailable = Some (str ''Preview iframe is not available.'')"
| "errorMessage (GenerationFailed m) = m"

definition orElse :: "jsstring option \<Rightarrow> jsstring \<Rightarrow> jsstring" where
  "orElse v d = (case v of None \<Rightarrow> d | Some s \<Rightarrow> s)"

definition handlePrint :: "bool \<Rightarrow> PrintPreview \<Rightarrow> (error + unit) \<times> PrintPreview" where
  "handlePrint win st =
     (if \<not> ready st then (Inl NotReady, st)
      else if \<not> win then (Inl IframeUnavailable, st)
      else (Inr (), st\<lparr>printCalls := printCalls st + 1\<rparr>))"

text \<open>
  \<open>handleDownload\<close> up to its first \<open>await\<close>: it throws, returns, or is suspended inside
  the \<open>try\<close> block with the pipeline running. \<open>now\<close> is \<open>Date.now()\<close>; \<open>iframe\<close> tells
  whether the iframe's document and window are there.
\<close>

datatype started = Thrown error | Returned | Suspended

definition handleDownload_start :: "int \<Rightarrow> bool \<Rightarrow> PrintPreview \<Rightarrow> started \<times> PrintPreview" where
  "handleDownload_start now iframe st =
     (if \<not> ready st then (Thrown NotReady, st)
      else if downloading st \<or> downloadInFlight st then (Thrown Busy, st)
      else if now - lastDownloadStartedAt st < 1500 then (Returned, st)
      else (let st1 = st\<lparr>lastDownloadStartedAt := now, downloadInFlight := True\<rparr>
            in if \<not> iframe
                 then (Thrown IframeUnavailable, st1\<lparr>downloadInFlight := False\<rparr>)
                 else (Suspended,
                       st1\<lparr>pdfOutputs := pdfOutputs st1 @
                              [\<lparr>upd_status = Generating, upd_base64 = None,
                                upd_fileName = None, upd_message = None\<rparr>],
                            downloading := True,
                            pipelineRuns := pipelineRuns st1 + 1\<rparr>)))"

text \<open>
  The rest of \<open>handleDownload\<close>, once the \<open>try\<close> block has run: \<open>outcome\<close> is \<open>Inl m\<close>
  when something in the block threw (a capture, the PDF assembly, a conversion), and
  \<open>Inr (dataUrl, downloadName)\<close>, the source's \<open>pdfBase64\<close> and \<open>downloadName\<close>, when
  it reached the end. The \<open>finally\<close> block follows.
\<close>

definition handleDownload_finish ::
  "jsstring option + jsstring \<times> jsstring \<Rightarrow> PrintPreview \<Rightarrow> (error + unit) \<times> PrintPreview" where
  "handleDownload_finish outcome st =
     (case outcome of
        Inr (dataUrl, downloadName) \<Rightarrow>
          (Inr (),
           st\<lparr>pdfOutputs := pdfOutputs st @
                 [\<lparr>upd_status = Ready, upd_base64 = Some dataUrl,
                   upd_fileName = Some downloadName, upd_message = None\<rparr>],
               downloadInFlight := False, downloading := False\<rparr>)
      | Inl m \<Rightarrow>
          (Inl (GenerationFailed m),
           st\<lparr>pdfOutputs := pdfOutputs st @
                 [\<lparr>upd_status = Error, upd_base64 = None, upd_fileName = None,
                   upd_message = Some (orElse m (str ''Failed to generate PDF output.''))\<rparr>],
               downloadInFlight := False, downloading := False\<rparr>))"

subsection \<open>The command effects\<close>

definition queueEffect :: "CommandRequest option \<Rightarrow> PrintPreview \<Rightarrow> PrintPreview" where
  "queueEffect commandRequest st =
     (case commandRequest of
        None \<Rightarrow> st
      | Some command \<Rightarrow>
          if trim (raw command) = [] then st
          else if raw command = lastQueuedCommandRaw st then st
          else st\<lparr>lastQueuedCommandRaw := raw command, pendingCommand := Some command\<rparr>)"

definition onCommandResult :: "CommandRequest \<Rightarrow> CommandStatus \<Rightarrow> jsstring option \<Rightarrow> PrintPreview \<Rightarrow> PrintPreview" where
  "onCommandResult command status message st =
     st\<lparr>commandResults := commandResults st @
          [(raw command, \<lparr>res_id = cmd_id command, res_action = cmd_action command,
                          res_status = status, res_message = message\<rparr>)]\<rparr>"

text \<open>What \<open>execute\<close> does once \<open>handlePrint\<close> or \<open>handleDownload\<close> has settled.\<close>

definition settleCommand :: "CommandRequest \<Rightarrow> error + unit \<Rightarrow> PrintPreview \<Rightarrow> PrintPreview" where
  "settleCommand command result st =
     (let st1 = (case result of
                   Inr _ \<Rightarrow> onCommandResult command Completed None st
                 | Inl e \<Rightarrow> onCommandResult command Failed
                             (Some (orElse (errorMessage e) (str ''Command failed.''))) st)
      in st1\<lparr>completedCommandRaw := raw command, executingCommandRaw := raw command,
             pendingCommand := None\<rparr>)"

definition executeEffect :: "jsstring \<Rightarrow> int \<Rightarrow> bool \<Rightarrow> PrintPreview \<Rightarrow> PrintPreview" where
  "executeEffect html now iframe st =
     (case pendingCommand st of
        None \<Rightarrow> st
      | Some pending \<Rightarrow>
          if executingCommandRaw st = raw pending then st
          else if completedCommandRaw st = raw pending then st\<lparr>pendingCommand := None\<rparr>
          else if trim html = []
            then (onCommandResult pending Failed (Some (str ''No HTML content is available.'')) st)
                   \<lparr>pendingCommand := None\<rparr>
          else if \<not> ready st \<or> downloading st then st
          else (let st1 = st\<lparr>executingCommandRaw := raw pending,
                              executions := executions st @ [pending]\<rparr>
                in if cmd_action pending = Print
                     then (case handlePrint iframe st1 of
                             (result, st2) \<Rightarrow> settleCommand pending result st2)
                     else (case handleDownload_start now iframe st1 of
                             (Thrown e, st2) \<Rightarrow> settleCommand pending (Inl e) st2
                           | (Returned, st2) \<Rightarrow> settleCommand pending (Inr ()) st2
                           | (Suspended, st2) \<Rightarrow> st2\<lparr>awaitedBy := Some pending\<rparr>)))"

text \<open>
  The running download settles: the awaiting \<open>execute\<close>, if there is one, reports and
  finishes; a download started from the button has its rejection swallowed.
\<close>

definition downloadSettles :: "jsstring option + jsstring \<times> jsstring \<Rightarrow> PrintPreview \<Rightarrow> PrintPreview" where
  "downloadSettles outcome st =
     (if \<not> downloadInFlight st then st
      else (case handleDownload_finish outcome st of
              (result, st1) \<Rightarrow>
                (case awaitedBy st1 of
                   None \<Rightarrow> st1
                 | Some command \<Rightarrow> settleCommand command result (st1\<lparr>awaitedBy := None\<rparr>))))"

text \<open>The two buttons; both are disabled without HTML, before the load and during a download.\<close>

definition clickPrint :: "jsstring \<Rightarrow> bool \<Rightarrow> PrintPreview \<Rightarrow> PrintPreview" where
  "clickPrint html iframe st =
     (if trim html = [] \<or> \<not> ready st \<or> downloading st then st
      else snd (handlePrint iframe st))"

definition clickDownload :: "jsstring \<Rightarrow> int \<Rightarrow> bool \<Rightarrow> PrintPreview \<Rightarrow> PrintPreview" where
  "clickDownload html now iframe st =
     (if trim html = [] \<or> \<not> ready st \<or> downloading st then st
      else snd (handleDownload_start now iframe st))"

datatype PreviewEvent =
    CommandRequestProp "CommandRequest option"
  | EffectRun jsstring int bool
  | DownloadSettles "jsstring option + jsstring \<times> jsstring"
  | IframeLoad
  | SrcDocChange
  | ClickPrint jsstring bool
  | ClickDownload jsstring int bool

fun previewStep :: "PrintPreview \<Rightarrow> PreviewEvent \<Rightarrow> PrintPreview" where
  "previewStep st (CommandRequestProp commandRequest) = queueEffect commandRequest st"
| "previewStep st (EffectRun html now iframe) = executeEffect html now iframe st"
| "previewStep st (DownloadSettles outcome) = downloadSettles outcome st"
| "previewStep st IframeLoad = st\<lparr>ready := True\<rparr>"
| "previewStep st SrcDocChange = st\<lparr>ready := False\<rparr>"
| "previewStep st (ClickPrint html iframe) = clickPrint html iframe st"
| "previewStep st (ClickDownload html now iframe) = clickDownload html now iframe st"

definition runPreview :: "PreviewEvent list \<Rightarrow> PrintPreview \<Rightarrow> PrintPreview" where
  "runPreview evs st = foldl previewStep st evs"

section \<open>Notions used in the statements\<close>

text \<open>The outputs \<open>pdfBase64\<close> and \<open>pdfFileName\<close> are empty unless the status is \<open>ready\<close>.\<close>

definition pdfInvariant :: "HtmlToPdfComponent \<Rightarrow> bool" where
  "pdfInvariant c = (pdfStatus c \<noteq> (str ''ready'') \<longrightarrow> pdfBase64 c = [] \<and> pdfFileName c = [])"

text \<open>
  The edges of the image drawn on a page, in the page's coordinates (origin at the lower
  left corner, y upwards), and what it means for the image to be centred or aligned
  inside the margin box.
\<close>

definition imageLeft :: "PdfPage \<Rightarrow> rat" where "imageLeft p = img_x p"
definition imageRight :: "PdfPage \<Rightarrow> rat" where "imageRight p = img_x p + img_width p"
definition imageBottom :: "PdfPage \<Rightarrow> rat" where "imageBottom p = img_y p"
definition imageTop :: "PdfPage \<Rightarrow> rat" where "imageTop p = img_y p + img_height p"

definition centredHorizontally :: "PdfPage \<Rightarrow> bool" where
  "centredHorizontally p = (imageLeft p - margin = (page_width p - margin) - imageRight p)"

definition bottomAligned :: "PdfPage \<Rightarrow> bool" where
  "bottomAligned p = (imageBottom p = margin)"

definition topAligned :: "PdfPage \<Rightarrow> bool" where
  "topAligned p = (imageTop p = page_height p - margin)"

text \<open>
  The number of page markers in a subtree, at any depth: the \<open>div\<close> elements whose \<open>id\<close>
  is \<open>page\<close> or starts with \<open>page-\<close>. \<open>hasPageId\<close> is the wider reading of the
  specification, any element with such an \<open>id\<close>. \<open>isElement\<close> tells the element nodes
  from text and comments.
\<close>

fun countMarkers :: "node \<Rightarrow> nat" where
  "countMarkers (Element name ident children) =
     (if name = (str ''div'') \<and> (ident = (str ''page'') \<or> take 5 ident = (str ''page-'')) then 1 else 0)
       + sum_list (map countMarkers children)"
| "countMarkers (Text s) = 0"
| "countMarkers (Comment s) = 0"

fun hasPageId :: "token \<Rightarrow> bool" where
  "hasPageId (Open name ident) = (ident = (str ''page'') \<or> take 5 ident = (str ''page-''))"
| "hasPageId _ = False"

fun isElement :: "node \<Rightarrow> bool" where
  "isElement (Element name ident children) = True"
| "isElement _ = False"

definition nestedMarkersBody :: "node list" where
  "nestedMarkersBody =
     [Text (str ''A''),
      Element (str ''div'') (str ''page'')
        [Text (str ''B''), Element (str ''section'') [] [Element (str ''div'') (str ''page-2'') [Text (str ''C'')]]],
      Text (str ''D'')]"

definition sectionMarkersBody :: "node list" where
  "sectionMarkersBody =
     [Element (str ''section'') (str ''page'') [Text (str ''A'')], Element (str ''section'') (str ''page-2'') [Text (str ''B'')]]"

text \<open>
  The state after the iframe has loaded and the download button was clicked: a download
  is running.
\<close>

definition downloadRunning :: PrintPreview where
  "downloadRunning =
     runPreview [IframeLoad, ClickDownload (str ''<p>x</p>'') 5000 True] initPreview"

text \<open>
  \<open>acceptedPayload\<close> tells whether \<open>parseActionCommand\<close> accepts a parsed payload: an
  object whose \<open>id\<close> is a string that is not empty after trimming and whose \<open>action\<close>,
  trimmed and in lower case, is \<open>print\<close> or \<open>download\<close>. \<open>wellFormedPayload\<close> is the
  shape in the words of the specification: a non-empty string \<open>id\<close> and an \<open>action\<close> that
  is \<open>print\<close> or \<open>download\<close>. \<open>errorAck\<close> is the acknowledgment \<open>updateView\<close> emits for a
  payload it rejects. \<open>sampleParse\<close> is \<open>JSON.parse\<close> on the two example payloads
  \<open>{"id":"1","action":"PRINT"}\<close> and \<open>{"action":"print"}\<close>, and on text that is not JSON.
\<close>

fun acceptedPayload :: "json option \<Rightarrow> bool" where
  "acceptedPayload (Some (JObject props)) =
     (trim (stringField (map_of props (str ''id''))) \<noteq> [] \<and>
      (toLowerCase (trim (stringField (map_of props (str ''action'')))) = (str ''print'') \<or>
       toLowerCase (trim (stringField (map_of props (str ''action'')))) = (str ''download'')))"
| "acceptedPayload _ = False"

fun wellFormedPayload :: "json option \<Rightarrow> bool" where
  "wellFormedPayload (Some (JObject props)) =
     ((case map_of props (str ''id'') of Some (JString s) \<Rightarrow> s \<noteq> [] | _ \<Rightarrow> False) \<and>
      (map_of props (str ''action'') = Some (JString (str ''print'')) \<or>
       map_of props (str ''action'') = Some (JString (str ''download''))))"
| "wellFormedPayload _ = False"

definition errorAck :: "jsstring \<Rightarrow> CommandAck" where
  "errorAck msg = \<lparr>ack_id = [], ack_action = (str ''unknown''), ack_status = Failed, ack_message = Some msg\<rparr>"

definition upperCasePayload :: jsstring where
  "upperCasePayload = (str ''{'') @ quoted (str ''id'') @ (str '':'') @ quoted (str ''1'') @ (str '','') @ quoted (str ''action'')
                        @ (str '':'') @ quoted (str ''PRINT'') @ (str ''}'')"

definition missingIdPayload :: jsstring where
  "missingIdPayload = (str ''{'') @ quoted (str ''action'') @ (str '':'') @ quoted (str ''print'') @ (str ''}'')"

definition sampleParse :: "jsstring \<Rightarrow> json option" where
  "sampleParse r =
     (if r = upperCasePayload then Some (JObject [((str ''id''), JString (str ''1'')), ((str ''action''), JString (str ''PRINT''))])
      else if r = missingIdPayload then Some (JObject [((str ''action''), JString (str ''print''))])
      else None)"

text \<open>
  The acknowledgments reported for a command with raw payload \<open>r\<close> and the executions
  started for it, and the events that deliver no payload other than \<open>r\<close> (or a blank
  one, which the queue effect ignores).
\<close>

definition acksFor :: "jsstring \<Rightarrow> PrintPreview \<Rightarrow> nat" where
  "acksFor r st = length (filter (\<lambda>p. fst p = r) (commandResults st))"

definition executionsFor :: "jsstring \<Rightarrow> PrintPreview \<Rightarrow> nat" where
  "executionsFor r st = length (filter (\<lambda>c. raw c = r) (executions st))"

fun deliversOnly :: "jsstring \<Rightarrow> PreviewEvent \<Rightarrow> bool" where
  "deliversOnly r (CommandRequestProp (Some c)) = (raw c = r \<or> trim (raw c) = [])"
| "deliversOnly r _ = True"

text \<open>
  What holds in every reachable state: the command awaiting the running download is the
  one recorded as executing, and \<open>downloading\<close> is set; a pending command is the one queued
  last.
\<close>

definition previewInv :: "PrintPreview \<Rightarrow> bool" where
  "previewInv st =
     ((case awaitedBy st of
         None \<Rightarrow> True
       | Some c \<Rightarrow> executingCommandRaw st = raw c \<and> downloading st) \<and>
      (case pendingCommand st of
         None \<Rightarrow> True
       | Some c \<Rightarrow> lastQueuedCommandRaw st = raw c))"

text \<open>
  How many more acknowledgments and executions of \<open>r\<close> can come while no other payload is
  delivered: one acknowledgment while the download of \<open>r\<close> is awaited, none of either once
  \<open>r\<close> is settled (queued last with nothing pending, or recorded as executing with nothing
  awaited), one of each otherwise. \<open>budgetStep\<close> says that a step pays for what it
  reports out of these budgets.
\<close>

definition awaits :: "jsstring \<Rightarrow> PrintPreview \<Rightarrow> bool" where
  "awaits r st = (case awaitedBy st of None \<Rightarrow> False | Some c \<Rightarrow> raw c = r)"

definition pendingIs :: "jsstring \<Rightarrow> PrintPreview \<Rightarrow> bool" where
  "pendingIs r st = (case pendingCommand st of None \<Rightarrow> False | Some c \<Rightarrow> raw c = r)"

definition settled :: "jsstring \<Rightarrow> PrintPreview \<Rightarrow> bool" where
  "settled r st =
     (\<not> awaits r st \<and>
      ((lastQueuedCommandRaw st = r \<and> pendingCommand st = None) \<or>
       (executingCommandRaw st = r \<and> awaitedBy st = None \<and>
        (pendingCommand st = None \<or> pendingIs r st))))"

definition ackBudget :: "jsstring \<Rightarrow> PrintPreview \<Rightarrow> nat" where
  "ackBudget r st = (if awaits r st then 1 else if settled r st then 0 else 1)"

definition execBudget :: "jsstring \<Rightarrow> PrintPreview \<Rightarrow> nat" where
  "execBudget r st = (if awaits r st \<or> settled r st then 0 else 1)"

definition budgetStep :: "jsstring \<Rightarrow> PrintPreview \<Rightarrow> PrintPreview \<Rightarrow> bool" where
  "budgetStep r st st' =
     (acksFor r st' + ackBudget r st' \<le> acksFor r st + ackBudget r st \<and>
      executionsFor r st' + execBudget r st' \<le> executionsFor r st + execBudget r st)"

text \<open>
  Two print commands with the payloads \<open>{"id":"a","action":"print"}\<close> and
  \<open>{"id":"b","action":"print"}\<close>. \<open>deliver\<close> is one delivery as the host makes it: the
  command arrives, the execute effect runs, the host withdraws the command after the
  acknowledgment, and the effect runs again.
\<close>

definition printPayload :: "jsstring \<Rightarrow> jsstring" where
  "printPayload i = (str ''{'') @ quoted (str ''id'') @ (str '':'') @ quoted i @ (str '','') @ quoted (str ''action'') @ (str '':'')
                      @ quoted (str ''print'') @ (str ''}'')"

definition commandA :: CommandRequest where
  "commandA = \<lparr>cmd_id = (str ''a''), cmd_action = Print, raw = printPayload (str ''a'')\<rparr>"

definition commandB :: CommandRequest where
  "commandB = \<lparr>cmd_id = (str ''b''), cmd_action = Print, raw = printPayload (str ''b'')\<rparr>"

definition deliver :: "CommandRequest \<Rightarrow> PreviewEvent list" where
  "deliver c = [CommandRequestProp (Some c), EffectRun (str ''<p>x</p>'') 0 True,
                CommandRequestProp None, EffectRun (str ''<p>x</p>'') 0 True]"


section \<open>Properties of the host component\<close>

lemma handlePdfOutput_inv: "pdfInvariant (handlePdfOutput update c)"
  by (simp add: pdfInvariant_def handlePdfOutput_def str_def)

lemma updateCommandAck_pdf [simp]:
  "pdfStatus (updateCommandAck a c) = pdfStatus c"
  "pdfBase64 (updateCommandAck a c) = pdfBase64 c"
  "pdfFileName (updateCommandAck a c) = pdfFileName c"
  by (simp_all add: updateCommandAck_def)

lemma updateView_pdf:
  "pdfStatus (updateView P i opened c) = pdfStatus c"
  "pdfBase64 (updateView P i opened c) = pdfBase64 c"
  "pdfFileName (updateView P i opened c) = pdfFileName c"
  by (simp_all add: updateView_def handlePopupCommand_def Let_def split: sum.splits)

lemma handleInlineCommandResult_pdf:
  "pdfStatus (handleInlineCommandResult r c) = pdfStatus c"
  "pdfBase64 (handleInlineCommandResult r c) = pdfBase64 c"
  "pdfFileName (handleInlineCommandResult r c) = pdfFileName c"
  by (simp_all add: handleInlineCommandResult_def)

lemma componentStep_inv: "pdfInvariant c \<Longrightarrow> pdfInvariant (componentStep P c ev)"
  by (cases ev)
     (simp_all add: handlePdfOutput_inv, simp_all add: pdfInvariant_def updateView_pdf
        handleInlineCommandResult_pdf)

lemma foldl_componentStep_inv:
  "pdfInvariant c \<Longrightarrow> pdfInvariant (foldl (componentStep P) c evs)"
  by (induction evs arbitrary: c) (simp_all add: componentStep_inv)

lemma runComponent_inv: "pdfInvariant (runComponent P evs)"
  unfolding runComponent_def
  by (rule foldl_componentStep_inv) (simp add: pdfInvariant_def initComponent_def)

text \<open>
  Claim C10. An update whose status is not \<open>ready\<close> (\<open>generating\<close>, \<open>error\<close> or any
  other) leaves \<open>pdfStatus\<close> different from \<open>ready\<close> and resets \<open>pdfBase64\<close> and
  \<open>pdfFileName\<close> to the empty string; a \<open>ready\<close> update sets \<open>pdfStatus\<close> to \<open>ready\<close> and
  stores the update's \<open>base64\<close> and \<open>fileName\<close>. So after any sequence of
  \<open>updateView\<close> calls, export status updates and inline command results on a fresh
  component, \<open>getOutputs\<close> reports a non-empty \<open>pdfBase64\<close> or \<open>pdfFileName\<close> only
  together with \<open>pdfStatus = ready\<close>.
\<close>

theorem pdf_outputs_only_when_ready:
  "(upd_status update \<noteq> Ready \<longrightarrow>
      pdfStatus (handlePdfOutput update c) \<noteq> (str ''ready'') \<and>
      pdfBase64 (handlePdfOutput update c) = [] \<and>
      pdfFileName (handlePdfOutput update c) = []) \<and>
   (upd_status update = Ready \<longrightarrow>
      pdfStatus (handlePdfOutput update c) = (str ''ready'') \<and>
      pdfBase64 (handlePdfOutput update c) = orEmpty (upd_base64 update) \<and>
      pdfFileName (handlePdfOutput update c) = orEmpty (upd_fileName update)) \<and>
   (out_pdfStatus (getOutputs (runComponent JSON_parse evs)) \<noteq> (str ''ready'') \<longrightarrow>
      out_pdfBase64 (getOutputs (runComponent JSON_parse evs)) = [] \<and>
      out_pdfFileName (getOutputs (runComponent JSON_parse evs)) = [])"
proof -
  have "pdfInvariant (runComponent JSON_parse evs)"
    by (rule runComponent_inv)
  then show ?thesis
    by (simp add: pdfInvariant_def getOutputs_def handlePdfOutput_def str_def)
qed

theorem pdf_outputs_only_when_ready_witness:
  "upd_status \<lparr>upd_status = Error, upd_base64 = None, upd_fileName = None,
                upd_message = Some (str ''x'')\<rparr> \<noteq> Ready \<and>
   pdfBase64 (handlePdfOutput \<lparr>upd_status = Error, upd_base64 = None, upd_fileName = None,
                upd_message = Some (str ''x'')\<rparr>
               (initComponent\<lparr>pdfStatus := (str ''ready''), pdfBase64 := (str ''data''),
                               pdfFileName := (str ''a.pdf'')\<rparr>)) = []"
  using pdf_outputs_only_when_ready
    [of "\<lparr>upd_status = Error, upd_base64 = None, upd_fileName = None, upd_message = Some (str ''x'')\<rparr>"
        "initComponent\<lparr>pdfStatus := (str ''ready''), pdfBase64 := (str ''data''), pdfFileName := (str ''a.pdf'')\<rparr>"]
  by simp

lemma parseParsed_rejects:
  "\<not> acceptedPayload v \<Longrightarrow> \<exists>err. parseParsed v r = Inl err"
  by (cases "(v, r)" rule: parseParsed.cases) (auto simp add: Let_def)

lemma parseParsed_missing_id:
  "trim (stringField (map_of props (str ''id''))) = [] \<Longrightarrow>
     parseParsed (Some (JObject props)) r = Inl (str ''actionCommand.id is required.'')"
  by (simp add: Let_def)

lemma updateView_error:
  assumes "r = trim (orEmpty (in_actionCommand inputs))" and "r \<noteq> []"
    and "r \<noteq> lastActionCommandRaw c" and "parseParsed (JSON_parse r) r = Inl err"
  shows "updateView JSON_parse inputs opened c =
           updateCommandAck (errorAck err) (c\<lparr>lastActionCommandRaw := r\<rparr>)"
  using assms by (simp add: updateView_def Let_def parseActionCommand_def errorAck_def)

lemma updateView_same:
  "trim (orEmpty (in_actionCommand inputs)) = lastActionCommandRaw c \<Longrightarrow>
     updateView JSON_parse inputs opened c = c"
  by (simp add: updateView_def Let_def)

text \<open>
  Claim C8, as amended. For every \<open>actionCommand\<close> payload that is not blank, differs
  from the payload seen last, and is not a JSON object with an \<open>id\<close> string that is
  non-empty after trimming and an \<open>action\<close> that is \<open>print\<close> or \<open>download\<close> after trimming
  and lower-casing (invalid JSON, a non-object or array, a missing or blank \<open>id\<close>, any
  other \<open>action\<close>), \<open>updateView\<close> emits exactly one error acknowledgment, with the
  message \<open>actionCommand.id is required.\<close> for a missing \<open>id\<close>; it queues no inline
  command and opens no popup, and a redelivery of the same payload emits nothing more.
\<close>

theorem invalid_payload_error_ack:
  assumes "r = trim (orEmpty (in_actionCommand inputs))" and "r \<noteq> []"
    and "r \<noteq> lastActionCommandRaw c" and "\<not> acceptedPayload (JSON_parse r)"
  shows "(\<exists>err. acks (updateView JSON_parse inputs opened c) = acks c @ [errorAck err]
              \<and> lastCommandAck (updateView JSON_parse inputs opened c) = Some (errorAck err))
       \<and> (\<forall>props. JSON_parse r = Some (JObject props)
              \<and> trim (stringField (map_of props (str ''id''))) = [] \<longrightarrow>
            acks (updateView JSON_parse inputs opened c)
              = acks c @ [errorAck (str ''actionCommand.id is required.'')])
       \<and> pendingInlineCommand (updateView JSON_parse inputs opened c) = pendingInlineCommand c
       \<and> popups (updateView JSON_parse inputs opened c) = popups c
       \<and> updateView JSON_parse inputs opened' (updateView JSON_parse inputs opened c)
           = updateView JSON_parse inputs opened c"
proof -
  from assms(4) obtain err where err: "parseParsed (JSON_parse r) r = Inl err"
    using parseParsed_rejects by blast
  note upd = updateView_error [where JSON_parse = JSON_parse and opened = opened, OF assms(1-3) err]
  have again: "updateView JSON_parse inputs opened' (updateView JSON_parse inputs opened c)
           = updateView JSON_parse inputs opened c"
    by (rule updateView_same) (simp add: upd updateCommandAck_def assms(1))
  have missing: "acks (updateView JSON_parse inputs opened c)
              = acks c @ [errorAck (str ''actionCommand.id is required.'')]"
    if "JSON_parse r = Some (JObject props)" "trim (stringField (map_of props (str ''id''))) = []" for props
  proof -
    from that have "parseParsed (JSON_parse r) r = Inl (str ''actionCommand.id is required.'')"
      by (simp add: parseParsed_missing_id)
    with err have "err = (str ''actionCommand.id is required.'')"
      by simp
    then show ?thesis
      by (simp add: upd updateCommandAck_def)
  qed
  have "acks (updateView JSON_parse inputs opened c) = acks c @ [errorAck err]
      \<and> lastCommandAck (updateView JSON_parse inputs opened c) = Some (errorAck err)"
    by (simp add: upd updateCommandAck_def)
  moreover have "pendingInlineCommand (updateView JSON_parse inputs opened c) = pendingInlineCommand c
      \<and> popups (updateView JSON_parse inputs opened c) = popups c"
    by (simp add: upd updateCommandAck_def)
  ultimately show ?thesis
    using again missing by blast
qed

lemma trim_missingIdPayload: "trim missingIdPayload = missingIdPayload"
  by code_simp

lemma trim_upperCasePayload: "trim upperCasePayload = upperCasePayload"
  by code_simp

theorem invalid_payload_error_ack_witness:
  "missingIdPayload \<noteq> [] \<and> missingIdPayload \<noteq> lastActionCommandRaw initComponent \<and>
   \<not> acceptedPayload (sampleParse missingIdPayload) \<and>
   acks (updateView sampleParse
           \<lparr>in_actionCommand = Some missingIdPayload, in_renderMode = Inline,
            in_html = str ''<p>x</p>''\<rparr>
           True initComponent)
     = [errorAck (str ''actionCommand.id is required.'')]"
proof -
  have ne: "missingIdPayload \<noteq> []"
    by code_simp
  have parse: "sampleParse missingIdPayload = Some (JObject [(str ''action'', JString (str ''print''))])"
    by code_simp
  have no_id: "trim (stringField (map_of [(str ''action'', JString (str ''print''))] (str ''id''))) = []"
    by code_simp
  have fresh: "missingIdPayload \<noteq> lastActionCommandRaw initComponent"
    using ne by (simp add: initComponent_def)
  have rej: "\<not> acceptedPayload (sampleParse missingIdPayload)"
    by code_simp
  have r: "missingIdPayload = trim (orEmpty (in_actionCommand
             \<lparr>in_actionCommand = Some missingIdPayload, in_renderMode = Inline,
              in_html = str ''<p>x</p>''\<rparr>))"
    by (simp add: orEmpty_def trim_missingIdPayload)
  from invalid_payload_error_ack
         [where JSON_parse = sampleParse and opened = True and opened' = True, OF r ne fresh rej]
  have "acks (updateView sampleParse
           \<lparr>in_actionCommand = Some missingIdPayload, in_renderMode = Inline,
            in_html = str ''<p>x</p>''\<rparr>
           True initComponent)
     = acks initComponent @ [errorAck (str ''actionCommand.id is required.'')]"
    using parse no_id by simp
  then show ?thesis
    using ne fresh rej by (simp add: initComponent_def)
qed

text \<open>
  Claim C8 as stated fails: the payload \<open>{"id":"1","action":"PRINT"}\<close>, whose action is
  not one of \<open>print\<close> and \<open>download\<close>, gets no error acknowledgment and is queued as a
  print command; a blank payload, which is not JSON, gets no acknowledgment at all.
\<close>

theorem normalised_action_accepted:
  "\<not> wellFormedPayload (sampleParse upperCasePayload) \<and>
   acks (updateView sampleParse
           \<lparr>in_actionCommand = Some upperCasePayload, in_renderMode = Inline,
            in_html = str ''<p>x</p>''\<rparr>
           True initComponent) = [] \<and>
   pendingInlineCommand (updateView sampleParse
           \<lparr>in_actionCommand = Some upperCasePayload, in_renderMode = Inline,
            in_html = str ''<p>x</p>''\<rparr>
           True initComponent)
     = Some \<lparr>cmd_id = str ''1'', cmd_action = Print, raw = upperCasePayload\<rparr> \<and>
   \<not> wellFormedPayload (sampleParse (str '' '')) \<and>
   acks (updateView sampleParse
           \<lparr>in_actionCommand = Some (str '' ''), in_renderMode = Inline,
            in_html = str ''<p>x</p>''\<rparr>
           True initComponent) = []"
proof -
  have ne: "upperCasePayload \<noteq> []"
    by code_simp
  have parse: "parseActionCommand sampleParse upperCasePayload
                 = Inr \<lparr>cmd_id = str ''1'', cmd_action = Print, raw = upperCasePayload\<rparr>"
    by code_simp
  have shape: "\<not> wellFormedPayload (sampleParse upperCasePayload)"
    "\<not> wellFormedPayload (sampleParse (str '' ''))"
    by code_simp+
  have blank: "trim (str '' '') = []"
    by code_simp
  show ?thesis
    using ne shape
    by (simp add: updateView_def Let_def orEmpty_def trim_upperCasePayload parse blank
          initComponent_def)
qed

text \<open>
  The white space of \<open>trim\<close> beyond ASCII decides as in the source: an action of
  \<open>print\<close> followed by a no-break space is accepted, and an \<open>id\<close> that is a no-break
  space is missing.
\<close>

lemma no_break_space_is_trimmed:
  "acceptedPayload (Some (JObject [(str ''id'', JString (str ''a'')),
                                    (str ''action'', JString (str ''print'' @ [0x00A0]))])) \<and>
   parseParsed (Some (JObject [(str ''id'', JString [0x00A0]),
                                (str ''action'', JString (str ''print''))])) r
     = Inl (str ''actionCommand.id is required.'')"
proof -
  have "trim (stringField (map_of [(str ''id'', JString [0x00A0]),
                                   (str ''action'', JString (str ''print''))] (str ''id''))) = []"
    by code_simp
  then have "parseParsed (Some (JObject [(str ''id'', JString [0x00A0]),
                                (str ''action'', JString (str ''print''))])) r
     = Inl (str ''actionCommand.id is required.'')"
    by (rule parseParsed_missing_id)
  moreover have "acceptedPayload (Some (JObject [(str ''id'', JString (str ''a'')),
                                    (str ''action'', JString (str ''print'' @ [0x00A0]))]))"
    by code_simp
  ultimately show ?thesis
    by simp
qed

section \<open>Properties of the pagination pipeline\<close>

lemma scaled_fits:
  fixes w h :: rat
  assumes "0 < w" "0 < h"
  shows "w * min (aw / w) (ah / h) \<le> aw" "h * min (aw / w) (ah / h) \<le> ah"
proof -
  have "w * min (aw / w) (ah / h) \<le> w * (aw / w)"
    using assms by (intro mult_left_mono) simp_all
  then show "w * min (aw / w) (ah / h) \<le> aw"
    using assms by simp
  have "h * min (aw / w) (ah / h) \<le> h * (ah / h)"
    using assms by (intro mult_left_mono) simp_all
  then show "h * min (aw / w) (ah / h) \<le> ah"
    using assms by simp
qed

text \<open>
  Claim C4, as amended. For every segment capture of positive width and height in the
  marker path, \<open>addCanvasAsSinglePage\<close> adds exactly one page of 595.28 x 841.89 points
  (margin 36), with the image scaled uniformly by
  \<open>min (availableWidth / imgW) (availableHeight / imgH)\<close>, centred horizontally and
  aligned with the top of the margin box: its upper edge is at \<open>pageHeight - margin\<close>, and
  it stays inside the margin box. The marker loop adds this one page for a segment whose
  capture is not \<open>null\<close>.
\<close>

theorem single_page_placement:
  assumes "0 < png_width canvas" "0 < png_height canvas"
  shows "let p = last (addCanvasAsSinglePage canvas pdfDoc);
             scale = min (availableWidth / of_nat (png_width canvas))
                         (availableHeight / of_nat (png_height canvas))
         in addCanvasAsSinglePage canvas pdfDoc = pdfDoc @ [p]
            \<and> page_width p = 59528 / 100 \<and> page_height p = 84189 / 100 \<and> margin = 36
            \<and> img_width p = of_nat (png_width canvas) * scale
            \<and> img_height p = of_nat (png_height canvas) * scale
            \<and> centredHorizontally p \<and> topAligned p
            \<and> margin \<le> imageLeft p \<and> imageRight p \<le> page_width p - margin
            \<and> margin \<le> imageBottom p
            \<and> (renderNodeSegmentAsCanvas html2canvas (cloneContents rng) = Inr (Some canvas) \<longrightarrow>
                 markerLoop cloneContents html2canvas (rng # rest) pdfDoc =
                 markerLoop cloneContents html2canvas rest (pdfDoc @ [p]))"
proof -
  have w: "(0::rat) < of_nat (png_width canvas)" and h: "(0::rat) < of_nat (png_height canvas)"
    using assms by simp_all
  note fits = scaled_fits [OF w h, of availableWidth availableHeight]
  show ?thesis
    using fits
    by (simp add: addCanvasAsSinglePage_def Let_def centredHorizontally_def topAligned_def
          imageLeft_def imageRight_def imageBottom_def imageTop_def availableWidth_def
          availableHeight_def pageWidth_def pageHeight_def margin_def field_simps)
qed

theorem single_page_placement_witness:
  "0 < png_width \<lparr>png_width = 100, png_height = 100\<rparr> \<and>
   0 < png_height \<lparr>png_width = 100, png_height = 100\<rparr> \<and>
   topAligned (last (addCanvasAsSinglePage \<lparr>png_width = 100, png_height = 100\<rparr> []))"
  using single_page_placement [of "\<lparr>png_width = 100, png_height = 100\<rparr>" "[]"]
  by (simp add: Let_def)

text \<open>
  Claim C4 as stated fails: a 100 x 100 capture is scaled to 523.28 x 523.28 and drawn
  with its lower edge at 282.61, not at the bottom margin 36; its upper edge is at the
  top margin.
\<close>

theorem single_page_not_bottom_aligned:
  "\<not> bottomAligned (last (addCanvasAsSinglePage \<lparr>png_width = 100, png_height = 100\<rparr> []))
   \<and> imageBottom (last (addCanvasAsSinglePage \<lparr>png_width = 100, png_height = 100\<rparr> [])) = 28261 / 100
   \<and> imageTop (last (addCanvasAsSinglePage \<lparr>png_width = 100, png_height = 100\<rparr> [])) = 84189 / 100 - 36"
  by (simp add: addCanvasAsSinglePage_def Let_def bottomAligned_def imageBottom_def imageTop_def
        availableWidth_def availableHeight_def pageWidth_def pageHeight_def margin_def)

lemma querySelectorAll_sorted: "sorted_wrt (<) (querySelectorAll toks)"
  unfolding querySelectorAll_def by (rule sorted_wrt_filter) simp

lemma querySelectorAll_set:
  "k \<in> set (querySelectorAll toks) \<longleftrightarrow> k < length toks \<and> matchesSelector (toks ! k)"
  by (auto simp add: querySelectorAll_def)

lemma filter_indices_length:
  "length (filter (\<lambda>k. P (xs ! k)) [0..<length xs]) = length (filter P xs)"
proof (induction xs rule: rev_induct)
  case Nil
  then show ?case by simp
next
  case (snoc x xs)
  have "filter (\<lambda>k. P ((xs @ [x]) ! k)) [0..<length xs] = filter (\<lambda>k. P (xs ! k)) [0..<length xs]"
    by (rule filter_cong) (simp_all add: nth_append)
  with snoc show ?case by simp
qed

lemma count_tokens: "length (filter matchesSelector (tokens nd)) = countMarkers nd"
proof (induction nd)
  case (Element name ident children)
  have "length (filter matchesSelector (concat (map tokens children)))
          = sum_list (map countMarkers children)"
    using Element by (induction children) simp_all
  then show ?case by simp
qed simp_all

lemma querySelectorAll_count:
  "length (querySelectorAll (bodyTokens body)) = sum_list (map countMarkers body)"
proof -
  have "length (filter matchesSelector (concat (map tokens body))) = sum_list (map countMarkers body)"
    by (induction body) (simp_all add: count_tokens)
  then show ?thesis
    by (simp add: querySelectorAll_def filter_indices_length bodyTokens_def)
qed

lemma segmentRange_eq:
  assumes "sorted_wrt (<) ms" "\<forall>k\<in>set ms. k \<le> len" "i < length ms"
  shows "segmentRange ms len i =
           (if i = 0 then 0 else ms ! i, if i + 1 < length ms then ms ! (i + 1) else len)"
proof -
  have le: "ms ! i \<le> len"
    using assms by simp
  have next_le: "ms ! i \<le> ms ! (i + 1)" if "i + 1 < length ms"
    using assms(1) that by (simp add: sorted_wrt_nth_less less_imp_le)
  show ?thesis
    using le next_le
    by (auto simp add: segmentRange_def Let_def createRange_def setStart_def setEnd_def)
qed

lemma slices_concat:
  assumes "sorted bs" "bs \<noteq> []" "last bs \<le> length xs"
  shows "concat (map (rangeContents xs) (zip bs (tl bs))) = take (last bs - hd bs) (drop (hd bs) xs)"
  using assms
proof (induction bs rule: induct_list012)
  case 1
  then show ?case by simp
next
  case (2 b)
  then show ?case by simp
next
  case (3 b c rest)
  then have IH: "concat (map (rangeContents xs) (zip (c # rest) rest)) = take (last (c # rest) - c) (drop c xs)"
    by simp
  have bc: "b \<le> c" and cl: "c \<le> last (c # rest)"
    using "3.prems"(1) by auto
  have join: "take (c - b) (drop b xs) @ take (last (c # rest) - c) (drop c xs)
          = take (last (c # rest) - b) (drop b xs)"
  proof -
    have "drop c xs = drop (c - b) (drop b xs)"
      using bc by simp
    moreover have "last (c # rest) - b = (c - b) + (last (c # rest) - c)"
      using bc cl by simp
    ultimately show ?thesis
      by (simp only: take_add)
  qed
  have "concat (map (rangeContents xs) (zip (b # c # rest) (tl (b # c # rest))))
          = rangeContents xs (b, c) @ concat (map (rangeContents xs) (zip (c # rest) rest))"
    by simp
  also have "\<dots> = take (c - b) (drop b xs) @ take (last (c # rest) - c) (drop c xs)"
    by (simp only: IH rangeContents_def fst_conv snd_conv)
  also note join
  finally show ?case
    by simp
qed

text \<open>
  Claim C3, as amended. For every document in which the selector finds \<open>n \<ge> 1\<close> page
  markers (the \<open>div\<close> elements with \<open>id\<close> \<open>page\<close> or \<open>page-<suffix>\<close>, at any nesting
  depth, listed in document order), the marker loop builds exactly \<open>n\<close> ranges: range 0
  starts at the start of the body, range \<open>i \<ge> 1\<close> starts before marker \<open>i\<close>, each range
  ends before the next marker or at the end of the body. Each range ends where the next
  one starts, so the ranges do not overlap, and their contents, in order, are the whole
  content of the body.
\<close>

theorem marker_segments_partition:
  assumes "toks = bodyTokens body" and "pageMarkerDivs = querySelectorAll toks"
    and "n = length pageMarkerDivs" and "1 \<le> n" and "segs = segmentRanges body"
  shows "n = sum_list (map countMarkers body)
       \<and> (\<forall>i<n. pageMarkerDivs ! i < length toks \<and> matchesSelector (toks ! (pageMarkerDivs ! i)))
       \<and> (\<forall>i j. i < j \<and> j < n \<longrightarrow> pageMarkerDivs ! i < pageMarkerDivs ! j)
       \<and> length segs = n
       \<and> fst (segs ! 0) = 0
       \<and> (\<forall>i. 0 < i \<and> i < n \<longrightarrow> fst (segs ! i) = pageMarkerDivs ! i)
       \<and> (\<forall>i. i + 1 < n \<longrightarrow> snd (segs ! i) = pageMarkerDivs ! (i + 1))
       \<and> snd (segs ! (n - 1)) = length toks
       \<and> (\<forall>i. i + 1 < n \<longrightarrow> snd (segs ! i) = fst (segs ! (i + 1)))
       \<and> (\<forall>i<n. fst (segs ! i) \<le> snd (segs ! i))
       \<and> concat (map (rangeContents toks) segs) = toks"
proof -
  let ?ms = pageMarkerDivs
  let ?len = "length toks"
  have sorted_ms: "sorted_wrt (<) ?ms"
    by (simp add: assms(2) querySelectorAll_sorted)
  have in_ms: "k < ?len \<and> matchesSelector (toks ! k)" if "k \<in> set ?ms" for k
    using that by (simp add: assms(2) querySelectorAll_set)
  then have bounded: "\<forall>k\<in>set ?ms. k \<le> ?len"
    by (auto intro: less_imp_le)
  have segs: "segs = map (segmentRange ?ms ?len) [0..<n]"
    by (simp add: assms segmentRanges_def Let_def)
  have seg: "segs ! i = (if i = 0 then 0 else ?ms ! i, if i + 1 < n then ?ms ! (i + 1) else ?len)"
    if "i < n" for i
    using that segmentRange_eq [OF sorted_ms bounded, of i] by (simp add: segs assms(3))
  have count: "n = sum_list (map countMarkers body)"
    by (simp add: assms querySelectorAll_count)
  have markers: "\<forall>i<n. ?ms ! i < ?len \<and> matchesSelector (toks ! (?ms ! i))"
    using in_ms by (simp add: assms(3))
  have order: "\<forall>i j. i < j \<and> j < n \<longrightarrow> ?ms ! i < ?ms ! j"
    using sorted_ms by (simp add: sorted_wrt_nth_less assms(3))
  have len: "length segs = n"
    by (simp add: segs)
  have ends: "\<forall>i<n. fst (segs ! i) \<le> snd (segs ! i)"
  proof (intro allI impI)
    fix i assume i: "i < n"
    have "?ms ! i \<le> ?len"
      using markers i by (simp add: less_imp_le)
    moreover have "?ms ! i \<le> ?ms ! (i + 1)" if "i + 1 < n"
      using order that by (simp add: less_imp_le)
    ultimately show "fst (segs ! i) \<le> snd (segs ! i)"
      using i by (simp add: seg)
  qed
  define bs where "bs = 0 # tl ?ms @ [?len]"
  have ms_ne: "?ms \<noteq> []"
    using assms(3,4) by auto
  have bs_len: "length bs = n + 1"
    using ms_ne by (simp add: bs_def assms(3))
  have bs_nth: "bs ! i = (if i = 0 then 0 else if i < n then ?ms ! i else ?len)" if "i \<le> n" for i
  proof (cases i)
    case 0
    then show ?thesis by (simp add: bs_def)
  next
    case (Suc j)
    then show ?thesis
      using that ms_ne by (auto simp add: bs_def nth_append nth_tl assms(3))
  qed
  have zip: "segs = zip bs (tl bs)"
  proof (rule nth_equalityI)
    show "length segs = length (zip bs (tl bs))"
      by (simp add: len bs_len)
  next
    fix i assume "i < length segs"
    then have i: "i < n" by (simp add: len)
    then have "zip bs (tl bs) ! i = (bs ! i, bs ! (i + 1))"
      by (simp add: bs_len nth_tl)
    with i show "segs ! i = zip bs (tl bs) ! i"
      by (simp add: seg bs_nth)
  qed
  have sorted_bs: "sorted bs"
  proof -
    have "sorted (tl ?ms)"
      using sorted_ms by (simp add: sorted_wrt_mono_rel [of _ "(<)" "(\<le>)"] sorted_tl strict_sorted_imp_sorted)
    moreover have "\<forall>k\<in>set (tl ?ms). k \<le> ?len"
      using bounded ms_ne by (auto dest: list.set_sel(2))
    ultimately show ?thesis
      by (simp add: bs_def sorted_append)
  qed
  have "concat (map (rangeContents toks) (zip bs (tl bs))) = take (last bs - hd bs) (drop (hd bs) toks)"
    by (rule slices_concat [OF sorted_bs]) (simp_all add: bs_def)
  also have "\<dots> = toks"
    by (simp add: bs_def)
  finally have cover: "concat (map (rangeContents toks) segs) = toks"
    by (simp only: zip)
  show ?thesis
    using count markers order len ends cover assms(4) by (simp add: seg)
qed

theorem marker_segments_partition_witness:
  "1 \<le> length (querySelectorAll (bodyTokens nestedMarkersBody)) \<and>
   segmentRanges nestedMarkersBody = [(0, 4), (4, 10)] \<and>
   concat (map (rangeContents (bodyTokens nestedMarkersBody)) (segmentRanges nestedMarkersBody))
     = bodyTokens nestedMarkersBody"
proof -
  have q: "querySelectorAll (bodyTokens nestedMarkersBody) = [1, 4]"
    by code_simp
  have s: "segmentRanges nestedMarkersBody = [(0, 4), (4, 10)]"
    by code_simp
  have h: "1 \<le> length (querySelectorAll (bodyTokens nestedMarkersBody))"
    by (simp add: q)
  from marker_segments_partition [OF refl refl refl h refl]
  have "concat (map (rangeContents (bodyTokens nestedMarkersBody)) (segmentRanges nestedMarkersBody))
          = bodyTokens nestedMarkersBody"
    by blast
  with h s show ?thesis
    by simp
qed

text \<open>
  Claim C3 as stated fails: a document whose two elements with \<open>id\<close> \<open>page\<close> and
  \<open>page-2\<close> are \<open>section\<close> elements has no page marker for the selector, and the marker
  loop builds no range.
\<close>

theorem section_markers_not_segmented:
  "length (filter hasPageId (bodyTokens sectionMarkersBody)) = 2 \<and>
   querySelectorAll (bodyTokens sectionMarkersBody) = [] \<and>
   segmentRanges sectionMarkersBody = []"
  by code_simp

subsection \<open>The slicing loop\<close>




lemma availableWidth_d_value: "availableWidth_d = 2301409778330501 / 4398046511104"
  by code_simp




subsection \<open>Skipped segments\<close>

lemma trim_Nil_iff: "trim s = [] \<longleftrightarrow> (\<forall>c\<in>set s. isWhiteSpace c)"
proof
  assume "trim s = []"
  then have "\<forall>c\<in>set (dropWhile isWhiteSpace s). isWhiteSpace c"
    by (simp add: trim_def dropWhile_eq_Nil_conv)
  then have "dropWhile isWhiteSpace s = []"
    using hd_dropWhile [of isWhiteSpace s] by (cases "dropWhile isWhiteSpace s") auto
  then show "\<forall>c\<in>set s. isWhiteSpace c"
    by (simp add: dropWhile_eq_Nil_conv)
next
  assume "\<forall>c\<in>set s. isWhiteSpace c"
  then show "trim s = []"
    by (auto simp add: trim_def dropWhile_eq_Nil_conv dest: set_dropWhileD)
qed

lemma isIgnorableNode_iff:
  "isIgnorableNode nd \<longleftrightarrow> (\<exists>s. nd = Text s \<and> (\<forall>c\<in>set s. isWhiteSpace c))"
  by (cases nd) (simp_all add: trim_Nil_iff)

lemma element_is_significant:
  "\<exists>nd\<in>set nodes. isElement nd \<Longrightarrow> filter (\<lambda>n. \<not> isIgnorableNode n) nodes \<noteq> []"
proof -
  assume "\<exists>nd\<in>set nodes. isElement nd"
  then obtain nd where "nd \<in> set nodes" "isElement nd"
    by blast
  moreover from \<open>isElement nd\<close> have "\<not> isIgnorableNode nd"
    by (cases nd) simp_all
  ultimately show ?thesis
    by (auto simp add: filter_empty_conv)
qed

lemma closeAll_element:
  "frames \<noteq> [] \<or> (\<exists>nd\<in>set roots. isElement nd) \<Longrightarrow>
     \<exists>nd\<in>set (closeAll frames roots). isElement nd"
  by (induction frames roots rule: closeAll.induct) auto

lemma attach_keeps:
  "frames \<noteq> [] \<or> (\<exists>nd\<in>set roots. isElement nd) \<Longrightarrow>
     fst (attach x frames roots) \<noteq> [] \<or> (\<exists>nd\<in>set (snd (attach x frames roots)). isElement nd)"
  by (cases "(x, frames, roots)" rule: attach.cases) auto

lemma attach_element:
  "isElement x \<Longrightarrow>
     fst (attach x frames roots) \<noteq> [] \<or> (\<exists>nd\<in>set (snd (attach x frames roots)). isElement nd)"
  by (cases "(x, frames, roots)" rule: attach.cases) auto

lemma rebuild_element:
  "frames \<noteq> [] \<or> (\<exists>nd\<in>set roots. isElement nd) \<Longrightarrow>
     \<exists>nd\<in>set (rebuild frames roots ancestors toks). isElement nd"
proof (induction frames roots ancestors toks rule: rebuild.induct)
  case (1 frames roots ancestors)
  then show ?case by (simp add: closeAll_element)
next
  case (2 frames roots ancestors s toks)
  from "2.prems" have "fst (attach (Text s) frames roots) \<noteq> []
      \<or> (\<exists>nd\<in>set (snd (attach (Text s) frames roots)). isElement nd)"
    by (rule attach_keeps)
  then show ?case using "2.IH" by simp
next
  case (3 frames roots ancestors s toks)
  from "3.prems" have "fst (attach (Comment s) frames roots) \<noteq> []
      \<or> (\<exists>nd\<in>set (snd (attach (Comment s) frames roots)). isElement nd)"
    by (rule attach_keeps)
  then show ?case using "3.IH" by simp
next
  case (4 frames roots ancestors name ident toks)
  then show ?case by simp
next
  case (5 name ident children frames roots ancestors toks)
  have "fst (attach (Element name ident children) frames roots) \<noteq> []
      \<or> (\<exists>nd\<in>set (snd (attach (Element name ident children) frames roots)). isElement nd)"
    by (rule attach_element) simp
  then show ?case using "5.IH" by simp
next
  case (6 roots name ident ancestors toks)
  then show ?case by simp
next
  case (7 roots toks)
  then show ?case by simp
qed

lemma rebuild_Open:
  "Open name ident \<in> set toks \<Longrightarrow>
     \<exists>nd\<in>set (rebuild frames roots ancestors toks). isElement nd"
proof (induction frames roots ancestors toks rule: rebuild.induct)
  case (4 frames roots ancestors name' ident' toks)
  show ?case
    by (simp add: rebuild_element)
qed simp_all

lemma segmentRanges_nth:
  assumes "i < length (querySelectorAll (bodyTokens body))"
  shows "segmentRanges body ! i =
           (if i = 0 then 0 else querySelectorAll (bodyTokens body) ! i,
            if i + 1 < length (querySelectorAll (bodyTokens body))
              then querySelectorAll (bodyTokens body) ! (i + 1)
              else length (bodyTokens body))"
proof -
  let ?toks = "bodyTokens body"
  let ?ms = "querySelectorAll ?toks"
  have "\<forall>k\<in>set ?ms. k \<le> length ?toks"
    by (auto simp add: querySelectorAll_set intro: less_imp_le)
  with segmentRange_eq [OF querySelectorAll_sorted _ assms, of "length ?toks"] assms
  show ?thesis
    by (simp add: segmentRanges_def Let_def)
qed

lemma segment_holds_marker:
  assumes "i < length (querySelectorAll (bodyTokens body))"
  shows "\<exists>name ident.
           Open name ident \<in> set (rangeContents (bodyTokens body) (segmentRanges body ! i))"
proof -
  let ?toks = "bodyTokens body"
  let ?ms = "querySelectorAll ?toks"
  let ?s = "fst (segmentRanges body ! i)" and ?e = "snd (segmentRanges body ! i)"
  have marker: "?ms ! i < length ?toks" "matchesSelector (?toks ! (?ms ! i))"
    using assms nth_mem [OF assms] by (simp_all add: querySelectorAll_set)
  have next_marker: "?ms ! i < ?ms ! (i + 1)" if "i + 1 < length ?ms"
    using querySelectorAll_sorted [of ?toks] that by (simp add: sorted_wrt_nth_less)
  have bounds: "?s \<le> ?ms ! i" "?ms ! i < ?e" "?e \<le> length ?toks"
    using marker next_marker nth_mem [of "i + 1" ?ms]
    by (auto simp add: segmentRanges_nth [OF assms] querySelectorAll_set intro: less_imp_le)
  have "rangeContents ?toks (segmentRanges body ! i) ! (?ms ! i - ?s) = ?toks ! (?ms ! i)"
    using bounds by (simp add: rangeContents_def)
  moreover have "?ms ! i - ?s < length (rangeContents ?toks (segmentRanges body ! i))"
    using bounds by (simp add: rangeContents_def)
  ultimately have "?toks ! (?ms ! i) \<in> set (rangeContents ?toks (segmentRanges body ! i))"
    by (metis nth_mem)
  moreover obtain name ident where "?toks ! (?ms ! i) = Open name ident"
    using marker(2) by (cases "?toks ! (?ms ! i)") simp_all
  ultimately show ?thesis
    by auto
qed

lemma segments_are_significant:
  assumes "rng \<in> set (segmentRanges body)"
  shows "filter (\<lambda>n. \<not> isIgnorableNode n) (Range_cloneContents (bodyTokens body) rng) \<noteq> []"
proof -
  have len: "length (segmentRanges body) = length (querySelectorAll (bodyTokens body))"
    by (simp add: segmentRanges_def Let_def)
  from assms obtain i where i: "i < length (segmentRanges body)" "rng = segmentRanges body ! i"
    by (auto simp add: in_set_conv_nth)
  with len segment_holds_marker [of i body]
  obtain name ident where "Open name ident \<in> set (rangeContents (bodyTokens body) rng)"
    by auto
  then have "\<exists>nd\<in>set (Range_cloneContents (bodyTokens body) rng). isElement nd"
    unfolding Range_cloneContents_def by (rule rebuild_Open)
  then show ?thesis
    by (rule element_is_significant)
qed

lemma renderNodeSegmentAsCanvas_eq:
  "renderNodeSegmentAsCanvas html2canvas nodes =
     (if filter (\<lambda>n. \<not> isIgnorableNode n) nodes = [] then Inr None
      else (case html2canvas nodes of Inl e \<Rightarrow> Inl e | Inr canvas \<Rightarrow> Inr (Some canvas)))"
  by (simp add: renderNodeSegmentAsCanvas_def Let_def)

lemma markerLoop_step:
  "markerLoop cloneContents html2canvas (rng # rest) pdfDoc =
     (if filter (\<lambda>n. \<not> isIgnorableNode n) (cloneContents rng) = []
        then markerLoop cloneContents html2canvas rest pdfDoc
      else (case html2canvas (cloneContents rng) of
              Inl e \<Rightarrow> Inl e
            | Inr canvas \<Rightarrow>
                markerLoop cloneContents html2canvas rest (addCanvasAsSinglePage canvas pdfDoc)))"
  by (simp add: renderNodeSegmentAsCanvas_eq split: sum.splits)

lemma addCanvasAsSinglePage_length:
  "length (addCanvasAsSinglePage canvas pdfDoc) = Suc (length pdfDoc)"
  by (simp add: addCanvasAsSinglePage_def Let_def)

lemma markerLoop_all_pages:
  assumes "\<forall>rng\<in>set rngs. filter (\<lambda>n. \<not> isIgnorableNode n) (cloneContents rng) \<noteq> []"
    and "\<forall>nodes. \<exists>canvas. html2canvas nodes = Inr canvas"
  shows "\<exists>pages. markerLoop cloneContents html2canvas rngs pdfDoc = Inr pages
            \<and> length pages = length pdfDoc + length rngs"
  using assms(1)
proof (induction rngs arbitrary: pdfDoc)
  case Nil
  then show ?case by simp
next
  case (Cons rng rest)
  from assms(2) obtain canvas where canvas: "html2canvas (cloneContents rng) = Inr canvas"
    by blast
  from Cons.prems have rest: "\<forall>r\<in>set rest. filter (\<lambda>n. \<not> isIgnorableNode n) (cloneContents r) \<noteq> []"
    and this_one: "filter (\<lambda>n. \<not> isIgnorableNode n) (cloneContents rng) \<noteq> []"
    by simp_all
  from Cons.IH [OF rest, of "addCanvasAsSinglePage canvas pdfDoc"]
  obtain pages where "markerLoop cloneContents html2canvas rest (addCanvasAsSinglePage canvas pdfDoc)
        = Inr pages" "length pages = length (addCanvasAsSinglePage canvas pdfDoc) + length rest"
    by blast
  then show ?case
    using canvas this_one
    by (simp add: renderNodeSegmentAsCanvas_eq addCanvasAsSinglePage_length)
qed

text \<open>
  Claim C9. A node is ignorable exactly when it is a text node of white space only, the
  white space of \<open>String.prototype.trim\<close>. \<open>renderNodeSegmentAsCanvas\<close> returns
  \<open>null\<close> when every node of the segment is ignorable, and otherwise what \<open>html2canvas\<close>
  makes of the segment, a canvas or its failure. The marker loop adds no page for a
  segment of ignorable nodes and goes on with the next one; for any other segment it
  adds one page from the capture and goes on. Each range the loop builds starts before
  its own marker element, so its cloned contents hold a significant node and the range
  is not skipped: when the captures succeed, the loop adds exactly one page for each
  marker of the document.
\<close>

theorem whitespace_segment_skipped:
  "(isIgnorableNode nd \<longleftrightarrow> (\<exists>s. nd = Text s \<and> (\<forall>c\<in>set s. isWhiteSpace c))) \<and>
   renderNodeSegmentAsCanvas html2canvas nodes =
     (if filter (\<lambda>n. \<not> isIgnorableNode n) nodes = [] then Inr None
      else (case html2canvas nodes of Inl e \<Rightarrow> Inl e | Inr canvas \<Rightarrow> Inr (Some canvas))) \<and>
   markerLoop cloneContents html2canvas (rng # rest) pdfDoc =
     (if filter (\<lambda>n. \<not> isIgnorableNode n) (cloneContents rng) = []
        then markerLoop cloneContents html2canvas rest pdfDoc
      else (case html2canvas (cloneContents rng) of
              Inl e \<Rightarrow> Inl e
            | Inr canvas \<Rightarrow>
                markerLoop cloneContents html2canvas rest (addCanvasAsSinglePage canvas pdfDoc))) \<and>
   (\<forall>r\<in>set (segmentRanges body).
      filter (\<lambda>n. \<not> isIgnorableNode n) (Range_cloneContents (bodyTokens body) r) \<noteq> []) \<and>
   ((\<forall>ns. \<exists>canvas. html2canvas ns = Inr canvas) \<longrightarrow>
      (\<exists>pages. markerLoop (Range_cloneContents (bodyTokens body)) html2canvas
                  (segmentRanges body) pdfDoc = Inr pages
             \<and> length pages = length pdfDoc + length (querySelectorAll (bodyTokens body))))"
proof -
  have all: "\<forall>r\<in>set (segmentRanges body).
      filter (\<lambda>n. \<not> isIgnorableNode n) (Range_cloneContents (bodyTokens body) r) \<noteq> []"
    by (simp add: segments_are_significant)
  have len: "length (segmentRanges body) = length (querySelectorAll (bodyTokens body))"
    by (simp add: segmentRanges_def Let_def)
  have pages: "\<exists>pages. markerLoop (Range_cloneContents (bodyTokens body)) html2canvas
                  (segmentRanges body) pdfDoc = Inr pages
             \<and> length pages = length pdfDoc + length (querySelectorAll (bodyTokens body))"
    if "\<forall>ns. \<exists>canvas. html2canvas ns = Inr canvas"
    using markerLoop_all_pages [OF all that, of pdfDoc] by (simp add: len)
  show ?thesis
    using all pages
    by (simp only: isIgnorableNode_iff renderNodeSegmentAsCanvas_eq markerLoop_step) simp
qed

theorem whitespace_segment_skipped_witness:
  "segmentRanges nestedMarkersBody = [(0, 4), (4, 10)] \<and>
   Range_cloneContents (bodyTokens nestedMarkersBody) (0, 4)
     = [Text (str ''A''), Element (str ''div'') (str ''page'')
                            [Text (str ''B''), Element (str ''section'') [] []]] \<and>
   map_sum id length
     (markerLoop (Range_cloneContents (bodyTokens nestedMarkersBody))
        (\<lambda>ns. Inr \<lparr>png_width = 100, png_height = 100\<rparr>) (segmentRanges nestedMarkersBody) [])
     = Inr 2 \<and>
   renderNodeSegmentAsCanvas (\<lambda>ns. Inr \<lparr>png_width = 100, png_height = 100\<rparr>)
     [Text (str '' ''), Text [0x000A, 0x00A0]] = Inr None \<and>
   renderNodeSegmentAsCanvas (\<lambda>ns. Inr \<lparr>png_width = 100, png_height = 100\<rparr>)
     [Text (str '' ''), Text (str ''A'')] = Inr (Some \<lparr>png_width = 100, png_height = 100\<rparr>)"
proof -
  let ?h = "\<lambda>ns :: node list. (Inr \<lparr>png_width = 100, png_height = 100\<rparr> :: jsstring + Canvas)"
  have s: "segmentRanges nestedMarkersBody = [(0, 4), (4, 10)]"
    by code_simp
  have c: "Range_cloneContents (bodyTokens nestedMarkersBody) (0, 4)
     = [Text (str ''A''), Element (str ''div'') (str ''page'')
                            [Text (str ''B''), Element (str ''section'') [] []]]"
    by code_simp
  have q: "length (querySelectorAll (bodyTokens nestedMarkersBody)) = 2"
    by code_simp
  have blank: "filter (\<lambda>n. \<not> isIgnorableNode n) [Text (str '' ''), Text [0x000A, 0x00A0]] = []"
    by code_simp
  have visible: "(filter (\<lambda>n. \<not> isIgnorableNode n) [Text (str '' ''), Text (str ''A'')] = []) = False"
    by code_simp
  have ok: "\<forall>ns. \<exists>canvas. ?h ns = Inr canvas"
    by simp
  note first = whitespace_segment_skipped
         [where html2canvas = ?h and body = nestedMarkersBody and pdfDoc = "[]"
            and nodes = "[Text (str '' ''), Text [0x000A, 0x00A0]]"]
  from first [THEN conjunct2, THEN conjunct2, THEN conjunct2, THEN conjunct2] ok
  obtain pages where "markerLoop (Range_cloneContents (bodyTokens nestedMarkersBody)) ?h
        (segmentRanges nestedMarkersBody) [] = Inr pages"
      "length pages = length ([] :: PdfPage list) + length (querySelectorAll (bodyTokens nestedMarkersBody))"
    by blast
  then have loop: "map_sum id length
     (markerLoop (Range_cloneContents (bodyTokens nestedMarkersBody)) ?h
        (segmentRanges nestedMarkersBody) []) = Inr 2"
    by (simp add: q)
  from first [THEN conjunct2, THEN conjunct1]
  have none: "renderNodeSegmentAsCanvas ?h [Text (str '' ''), Text [0x000A, 0x00A0]] = Inr None"
    by (simp only: blank if_True simp_thms)
  from whitespace_segment_skipped
         [where html2canvas = ?h and nodes = "[Text (str '' ''), Text (str ''A'')]",
          THEN conjunct2, THEN conjunct1]
  have some: "renderNodeSegmentAsCanvas ?h [Text (str '' ''), Text (str ''A'')]
                = Inr (Some \<lparr>png_width = 100, png_height = 100\<rparr>)"
    by (simp only: visible if_False sum.case)
  from s c loop none some show ?thesis
    by simp
qed

section \<open>Properties of the download handler\<close>

text \<open>
  Claim C5. When the preview is ready, no download is in flight and less than 1500 ms
  have passed since the start of the last accepted invocation, \<open>handleDownload\<close> returns
  without throwing and leaves the state as it was: the in-flight flag is not set and no
  export status is emitted. When an invocation at \<open>t1\<close> is accepted and a second one
  comes at \<open>t2\<close> with \<open>t2 - t1 < 1500\<close>, the second starts nothing, whether the first
  is still running (it throws \<open>Busy\<close>) or has settled (it returns silently): the two
  make exactly one pipeline run.
\<close>

theorem debounce_swallows:
  "(ready st \<and> \<not> downloading st \<and> \<not> downloadInFlight st
      \<and> now - lastDownloadStartedAt st < 1500 \<longrightarrow>
      handleDownload_start now iframe st = (Returned, st)) \<and>
   (ready st \<and> \<not> downloading st \<and> \<not> downloadInFlight st
      \<and> 1500 \<le> t1 - lastDownloadStartedAt st \<and> t2 - t1 < 1500 \<longrightarrow>
      (let st1 = snd (handleDownload_start t1 True st);
           st2 = snd (handleDownload_finish outcome st1)
       in fst (handleDownload_start t1 True st) = Suspended
          \<and> pipelineRuns st1 = pipelineRuns st + 1
          \<and> handleDownload_start t2 iframe st1 = (Thrown Busy, st1)
          \<and> handleDownload_start t2 iframe st2 = (Returned, st2)
          \<and> pipelineRuns st2 = pipelineRuns st + 1))"
  by (simp add: handleDownload_start_def handleDownload_finish_def Let_def split: sum.splits prod.splits)

theorem debounce_swallows_witness:
  "handleDownload_start 6000 True
     (initPreview\<lparr>ready := True, lastDownloadStartedAt := 5000\<rparr>)
     = (Returned, initPreview\<lparr>ready := True, lastDownloadStartedAt := 5000\<rparr>) \<and>
   fst (handleDownload_start 1700000000000 True (initPreview\<lparr>ready := True\<rparr>)) = Suspended \<and>
   fst (handleDownload_start 1700000000400 True
          (snd (handleDownload_start 1700000000000 True (initPreview\<lparr>ready := True\<rparr>))))
     = Thrown Busy"
  using debounce_swallows
          [of "initPreview\<lparr>ready := True, lastDownloadStartedAt := 5000\<rparr>" 6000 True 0 0 "Inl None"]
        debounce_swallows
          [of "initPreview\<lparr>ready := True\<rparr>" 0 True 1700000000000 1700000000400 "Inl None"]
  by (simp add: initPreview_def Let_def)

text \<open>
  Claim C6. \<open>handleDownload\<close> is called from two places, the download button and the
  \<open>execute\<close> of a queued command, and both require \<open>ready\<close>: without it a click on the
  button does nothing and the execute effect starts nothing. With the preview ready, an
  invocation that arrives while a download is in flight (\<open>downloading\<close> or the in-flight
  ref set) throws \<open>Busy\<close> (\<open>A download is already in progress.\<close>) before its first
  \<open>await\<close> and leaves the state as it was: no export status is emitted and the \<open>try\<close>
  block is not entered. While a download is in flight, no event of the component starts
  a pipeline run.
\<close>

theorem busy_when_in_flight:
  "(ready st \<and> (downloading st \<or> downloadInFlight st) \<longrightarrow>
      handleDownload_start now iframe st = (Thrown Busy, st)) \<and>
   (downloading st \<or> downloadInFlight st \<longrightarrow>
      fst (handleDownload_start now iframe st) \<noteq> Suspended \<and>
      snd (handleDownload_start now iframe st) = st \<and>
      pipelineRuns (previewStep st ev) = pipelineRuns st) \<and>
   (\<not> ready st \<longrightarrow>
      clickDownload html now iframe st = st \<and>
      pipelineRuns (executeEffect html now iframe st) = pipelineRuns st \<and>
      pdfOutputs (executeEffect html now iframe st) = pdfOutputs st \<and>
      lastDownloadStartedAt (executeEffect html now iframe st) = lastDownloadStartedAt st) \<and>
   errorMessage Busy = Some (str ''A download is already in progress.'')"
proof -
  have busy: "handleDownload_start now iframe st = (Thrown Busy, st)"
    if "ready st" "downloading st \<or> downloadInFlight st"
    using that by (auto simp add: handleDownload_start_def)
  have start: "fst (handleDownload_start t i st) \<noteq> Suspended \<and> snd (handleDownload_start t i st) = st"
    if "downloading st \<or> downloadInFlight st" for t i
    using that by (auto simp add: handleDownload_start_def)
  have runs: "pipelineRuns (previewStep st ev) = pipelineRuns st"
    if "downloading st \<or> downloadInFlight st"
  proof (cases ev)
    case (CommandRequestProp commandRequest)
    then show ?thesis
      by (simp add: queueEffect_def split: option.splits)
  next
    case (EffectRun h t i)
    from that have "handleDownload_start t i
            (st\<lparr>executingCommandRaw := r, executions := es\<rparr>)
          = (if ready st then Thrown Busy else Thrown NotReady,
             st\<lparr>executingCommandRaw := r, executions := es\<rparr>)" for r es
      by (auto simp add: handleDownload_start_def)
    with EffectRun show ?thesis
      by (simp add: executeEffect_def handlePrint_def settleCommand_def onCommandResult_def Let_def
            split: option.splits sum.splits)
  next
    case (DownloadSettles outcome)
    then show ?thesis
      by (simp add: downloadSettles_def handleDownload_finish_def settleCommand_def
            onCommandResult_def Let_def split: option.splits sum.splits prod.splits)
  next
    case IframeLoad
    then show ?thesis by simp
  next
    case SrcDocChange
    then show ?thesis by simp
  next
    case (ClickPrint h i)
    then show ?thesis
      by (simp add: clickPrint_def handlePrint_def)
  next
    case (ClickDownload h t i)
    with start [OF that, of t i] show ?thesis
      by (simp add: clickDownload_def)
  qed
  have idle: "clickDownload html now iframe st = st \<and>
      pipelineRuns (executeEffect html now iframe st) = pipelineRuns st \<and>
      pdfOutputs (executeEffect html now iframe st) = pdfOutputs st \<and>
      lastDownloadStartedAt (executeEffect html now iframe st) = lastDownloadStartedAt st"
    if "\<not> ready st"
    using that
    by (simp add: clickDownload_def executeEffect_def onCommandResult_def split: option.splits)
  from busy start [of now iframe] runs idle show ?thesis
    by simp
qed

theorem busy_when_in_flight_witness:
  "ready downloadRunning \<and> downloading downloadRunning \<and> downloadInFlight downloadRunning \<and>
   pipelineRuns downloadRunning = 1 \<and>
   handleDownload_start 5400 True downloadRunning = (Thrown Busy, downloadRunning) \<and>
   pipelineRuns (previewStep downloadRunning (ClickDownload (str ''<p>x</p>'') 9000 True)) = 1 \<and>
   handleDownload_start 5400 True (initPreview\<lparr>ready := True, downloadInFlight := True\<rparr>)
     = (Thrown Busy, initPreview\<lparr>ready := True, downloadInFlight := True\<rparr>) \<and>
   clickDownload (str ''<p>x</p>'') 5400 True initPreview = initPreview \<and>
   map snd (commandResults (executeEffect (str ''<p>x</p>'') 5400 True
       (initPreview\<lparr>ready := True, downloadInFlight := True,
          pendingCommand := Some \<lparr>cmd_id = str ''d'', cmd_action = Download, raw = str ''d''\<rparr>\<rparr>)))
     = [\<lparr>res_id = str ''d'', res_action = Download, res_status = Failed,
         res_message = Some (str ''A download is already in progress.'')\<rparr>]"
proof -
  have reported: "map snd (commandResults (executeEffect (str ''<p>x</p>'') 5400 True
       (initPreview\<lparr>ready := True, downloadInFlight := True,
          pendingCommand := Some \<lparr>cmd_id = str ''d'', cmd_action = Download, raw = str ''d''\<rparr>\<rparr>)))
     = [\<lparr>res_id = str ''d'', res_action = Download, res_status = Failed,
         res_message = Some (str ''A download is already in progress.'')\<rparr>]"
    by code_simp
  have html: "trim (str ''<p>x</p>'') \<noteq> []"
    by code_simp
  have st: "ready downloadRunning" "downloading downloadRunning" "downloadInFlight downloadRunning"
      "pipelineRuns downloadRunning = 1"
    using html
    by (simp_all add: downloadRunning_def runPreview_def initPreview_def clickDownload_def
          handleDownload_start_def Let_def)
  from busy_when_in_flight [of downloadRunning 5400 True "ClickDownload (str ''<p>x</p>'') 9000 True"] st
  have running: "handleDownload_start 5400 True downloadRunning = (Thrown Busy, downloadRunning)"
      "pipelineRuns (previewStep downloadRunning (ClickDownload (str ''<p>x</p>'') 9000 True)) = 1"
    by simp_all
  from busy_when_in_flight [of "initPreview\<lparr>ready := True, downloadInFlight := True\<rparr>" 5400 True]
  have second: "handleDownload_start 5400 True (initPreview\<lparr>ready := True, downloadInFlight := True\<rparr>)
     = (Thrown Busy, initPreview\<lparr>ready := True, downloadInFlight := True\<rparr>)"
    by simp
  from busy_when_in_flight
         [where st = initPreview and html = "str ''<p>x</p>''" and now = 5400 and iframe = True]
  have unready: "clickDownload (str ''<p>x</p>'') 5400 True initPreview = initPreview"
    by (simp add: initPreview_def)
  from st running second unready reported show ?thesis
    by simp
qed

text \<open>
  Claim C7. An accepted invocation sets the in-flight flag. It is cleared when the
  iframe is not available, and, once the pipeline runs, by the \<open>finally\<close> block on
  success and on any failure, together with \<open>downloading\<close>. The debounce return never
  sets the flag and leaves it clear.
\<close>

theorem in_flight_flag_cleared:
  "(ready st \<and> \<not> downloading st \<and> \<not> downloadInFlight st
      \<and> 1500 \<le> now - lastDownloadStartedAt st \<longrightarrow>
      (\<not> iframe \<longrightarrow>
         fst (handleDownload_start now iframe st) = Thrown IframeUnavailable \<and>
         \<not> downloadInFlight (snd (handleDownload_start now iframe st))) \<and>
      (iframe \<longrightarrow>
         fst (handleDownload_start now iframe st) = Suspended \<and>
         downloadInFlight (snd (handleDownload_start now iframe st)) \<and>
         \<not> downloadInFlight
             (snd (handleDownload_finish outcome (snd (handleDownload_start now iframe st)))) \<and>
         \<not> downloading
             (snd (handleDownload_finish outcome (snd (handleDownload_start now iframe st)))))) \<and>
   (ready st \<and> \<not> downloading st \<and> \<not> downloadInFlight st
      \<and> now - lastDownloadStartedAt st < 1500 \<longrightarrow>
      fst (handleDownload_start now iframe st) = Returned \<and>
      \<not> downloadInFlight (snd (handleDownload_start now iframe st))) \<and>
   \<not> downloadInFlight (snd (handleDownload_finish outcome st')) \<and>
   (downloadInFlight st' \<longrightarrow> \<not> downloadInFlight (downloadSettles outcome st'))"
  by (simp add: handleDownload_start_def handleDownload_finish_def downloadSettles_def
        settleCommand_def onCommandResult_def Let_def split: sum.splits prod.splits option.splits)

theorem in_flight_flag_cleared_witness:
  "downloadInFlight (snd (handleDownload_start 1700000000000 True (initPreview\<lparr>ready := True\<rparr>))) \<and>
   \<not> downloadInFlight (snd (handleDownload_finish (Inl (Some (str ''capture failed'')))
        (snd (handleDownload_start 1700000000000 True (initPreview\<lparr>ready := True\<rparr>))))) \<and>
   \<not> downloadInFlight (snd (handleDownload_start 1700000000000 False (initPreview\<lparr>ready := True\<rparr>))) \<and>
   \<not> downloadInFlight (snd (handleDownload_start 100 True (initPreview\<lparr>ready := True\<rparr>)))"
  using in_flight_flag_cleared
          [of "initPreview\<lparr>ready := True\<rparr>" 1700000000000 True "Inl (Some (str ''capture failed''))"]
        in_flight_flag_cleared
          [of "initPreview\<lparr>ready := True\<rparr>" 1700000000000 False "Inl (Some (str ''capture failed''))"]
        in_flight_flag_cleared
          [of "initPreview\<lparr>ready := True\<rparr>" 100 True "Inl (Some (str ''capture failed''))"]
  by (simp add: initPreview_def)

section \<open>Properties of the command state machine\<close>

lemmas budget_defs = acksFor_def executionsFor_def previewInv_def awaits_def pendingIs_def
  settled_def ackBudget_def execBudget_def

lemma initPreview_inv: "previewInv initPreview"
  by (simp add: previewInv_def initPreview_def)

lemma queueEffect_inv: "previewInv st \<Longrightarrow> previewInv (queueEffect cr st)"
  by (auto simp add: queueEffect_def previewInv_def split: option.splits)

lemma executeEffect_inv: "previewInv st \<Longrightarrow> previewInv (executeEffect html now iframe st)"
  by (auto simp add: executeEffect_def previewInv_def settleCommand_def onCommandResult_def
        handlePrint_def handleDownload_start_def Let_def
      split: option.splits sum.splits)

lemma downloadSettles_inv: "previewInv st \<Longrightarrow> previewInv (downloadSettles outcome st)"
  by (auto simp add: downloadSettles_def previewInv_def settleCommand_def onCommandResult_def
        handleDownload_finish_def Let_def
      split: option.splits sum.splits prod.splits)

lemma click_inv:
  "previewInv st \<Longrightarrow> previewInv (clickPrint html iframe st)"
  "previewInv st \<Longrightarrow> previewInv (clickDownload html now iframe st)"
  by (auto simp add: clickPrint_def clickDownload_def previewInv_def handlePrint_def
        handleDownload_start_def Let_def split: option.splits)

lemma previewStep_inv: "previewInv st \<Longrightarrow> previewInv (previewStep st ev)"
proof (cases ev)
  case IframeLoad
  assume "previewInv st"
  with IframeLoad show ?thesis by (simp add: previewInv_def split: option.splits)
next
  case SrcDocChange
  assume "previewInv st"
  with SrcDocChange show ?thesis by (simp add: previewInv_def split: option.splits)
qed (simp_all add: queueEffect_inv executeEffect_inv downloadSettles_inv click_inv)

lemma foldl_previewStep_inv: "previewInv st \<Longrightarrow> previewInv (foldl previewStep st evs)"
  by (induction evs arbitrary: st) (simp_all add: previewStep_inv)

lemma queueEffect_budget:
  assumes "previewInv st" and "deliversOnly r (CommandRequestProp cr)"
  shows "budgetStep r st (queueEffect cr st)"
  using assms
  by (auto simp add: budgetStep_def queueEffect_def budget_defs split: option.splits)

lemma same_core_budget:
  assumes "awaitedBy st' = awaitedBy st" and "pendingCommand st' = pendingCommand st"
    and "lastQueuedCommandRaw st' = lastQueuedCommandRaw st"
    and "executingCommandRaw st' = executingCommandRaw st"
    and "commandResults st' = commandResults st" and "executions st' = executions st"
  shows "budgetStep r st st'"
  using assms by (simp add: budgetStep_def budget_defs)

lemma settleCommand_budget:
  assumes "awaitedBy st = None" and "pendingCommand st = Some p"
    and "executingCommandRaw st \<noteq> raw p" and "lastQueuedCommandRaw st = raw p"
    and "awaitedBy st1 = None" and "lastQueuedCommandRaw st1 = raw p"
    and "commandResults st1 = commandResults st" and "executions st1 = executions st @ [p]"
  shows "budgetStep r st (settleCommand p result st1)"
  using assms
  by (cases result)
     (auto simp add: budgetStep_def budget_defs settleCommand_def onCommandResult_def Let_def)

lemma executeEffect_budget:
  assumes "previewInv st"
  shows "budgetStep r st (executeEffect html now iframe st)"
proof (cases "pendingCommand st")
  case None
  then show ?thesis
    by (simp add: executeEffect_def same_core_budget)
next
  case (Some p)
  with assms have queued: "lastQueuedCommandRaw st = raw p"
    by (simp add: previewInv_def)
  show ?thesis
  proof (cases "executingCommandRaw st = raw p")
    case True
    with Some show ?thesis
      by (simp add: executeEffect_def same_core_budget)
  next
    case other: False
    with assms have not_awaited: "\<not> awaits (raw p) st"
      by (auto simp add: previewInv_def awaits_def split: option.splits)
    show ?thesis
    proof (cases "completedCommandRaw st = raw p")
      case True
      with Some other show ?thesis
        by (auto simp add: executeEffect_def budgetStep_def budget_defs split: option.splits)
    next
      case fresh: False
      show ?thesis
      proof (cases "trim html = []")
        case True
        with Some other fresh queued not_awaited show ?thesis
          by (auto simp add: executeEffect_def budgetStep_def budget_defs onCommandResult_def
                split: option.splits)
      next
        case html: False
        show ?thesis
        proof (cases "\<not> ready st \<or> downloading st")
          case True
          with Some other fresh html show ?thesis
            by (auto simp add: executeEffect_def same_core_budget)
        next
          case False
          then have go: "ready st" "\<not> downloading st"
            by simp_all
          with assms have idle: "awaitedBy st = None"
            by (auto simp add: previewInv_def split: option.splits)
          let ?st1 = "st\<lparr>executingCommandRaw := raw p, executions := executions st @ [p]\<rparr>"
          show ?thesis
          proof (cases "cmd_action p = Print")
            case True
            have "budgetStep r st (settleCommand p (fst (handlePrint iframe ?st1))
                                      (snd (handlePrint iframe ?st1)))"
              by (rule settleCommand_budget [OF idle Some other queued])
                 (simp_all add: handlePrint_def idle queued)
            with Some other fresh html go True show ?thesis
              by (simp add: executeEffect_def Let_def split_beta)
          next
            case dl: False
            show ?thesis
            proof (cases "fst (handleDownload_start now iframe ?st1)")
              case (Thrown e)
              have "budgetStep r st (settleCommand p (Inl e) (snd (handleDownload_start now iframe ?st1)))"
                by (rule settleCommand_budget [OF idle Some other queued])
                   (simp_all add: handleDownload_start_def Let_def idle queued)
              with Some other fresh html go dl Thrown show ?thesis
                by (simp add: executeEffect_def Let_def split_beta)
            next
              case Returned
              have "budgetStep r st (settleCommand p (Inr ()) (snd (handleDownload_start now iframe ?st1)))"
                by (rule settleCommand_budget [OF idle Some other queued])
                   (simp_all add: handleDownload_start_def Let_def idle queued)
              with Some other fresh html go dl Returned show ?thesis
                by (simp add: executeEffect_def Let_def split_beta)
            next
              case Suspended
              let ?st2 = "snd (handleDownload_start now iframe ?st1)"
              have fields: "pendingCommand ?st2 = Some p" "lastQueuedCommandRaw ?st2 = raw p"
                "executingCommandRaw ?st2 = raw p" "commandResults ?st2 = commandResults st"
                "executions ?st2 = executions st @ [p]"
                by (simp_all add: handleDownload_start_def Let_def Some queued)
              have "budgetStep r st (?st2\<lparr>awaitedBy := Some p\<rparr>)"
                using idle Some other queued fields
                by (auto simp add: budgetStep_def budget_defs)
              with Some other fresh html go dl Suspended show ?thesis
                by (simp add: executeEffect_def Let_def split_beta)
            qed
          qed
        qed
      qed
    qed
  qed
qed

lemma downloadSettles_budget:
  assumes "previewInv st"
  shows "budgetStep r st (downloadSettles outcome st)"
proof (cases "downloadInFlight st")
  case False
  then show ?thesis
    by (simp add: downloadSettles_def same_core_budget)
next
  case True
  let ?st1 = "snd (handleDownload_finish outcome st)"
  have fields: "awaitedBy ?st1 = awaitedBy st" "pendingCommand ?st1 = pendingCommand st"
    "lastQueuedCommandRaw ?st1 = lastQueuedCommandRaw st"
    "executingCommandRaw ?st1 = executingCommandRaw st"
    "commandResults ?st1 = commandResults st" "executions ?st1 = executions st"
    by (simp_all add: handleDownload_finish_def split: sum.splits prod.splits)
  show ?thesis
  proof (cases "awaitedBy st")
    case None
    with True fields show ?thesis
      by (simp add: downloadSettles_def split_beta same_core_budget)
  next
    case (Some c)
    with assms have exec: "executingCommandRaw st = raw c"
      by (simp add: previewInv_def)
    have "budgetStep r st (settleCommand c (fst (handleDownload_finish outcome st))
                             (?st1\<lparr>awaitedBy := None\<rparr>))"
      using Some exec fields
      by (cases "fst (handleDownload_finish outcome st)")
         (auto simp add: budgetStep_def budget_defs settleCommand_def onCommandResult_def Let_def
            split: option.splits)
    with True Some fields show ?thesis
      by (simp add: downloadSettles_def split_beta)
  qed
qed

lemma click_budget:
  "budgetStep r st (clickPrint html iframe st)"
  "budgetStep r st (clickDownload html now iframe st)"
  by (rule same_core_budget;
      simp add: clickPrint_def clickDownload_def handlePrint_def handleDownload_start_def Let_def)+

lemma ready_budget: "budgetStep r st (st\<lparr>ready := b\<rparr>)"
  by (rule same_core_budget) simp_all

lemma previewStep_budget:
  assumes "previewInv st" and "deliversOnly r ev"
  shows "budgetStep r st (previewStep st ev)"
  using assms
  by (cases ev)
     (simp_all add: queueEffect_budget executeEffect_budget downloadSettles_budget click_budget
        ready_budget)

lemma budgetStep_trans: "budgetStep r a b \<Longrightarrow> budgetStep r b c \<Longrightarrow> budgetStep r a c"
  by (simp add: budgetStep_def)

lemma foldl_previewStep_budget:
  "previewInv st \<Longrightarrow> \<forall>ev\<in>set evs. deliversOnly r ev \<Longrightarrow>
     budgetStep r st (foldl previewStep st evs)"
proof (induction evs arbitrary: st)
  case Nil
  then show ?case by (simp add: budgetStep_def)
next
  case (Cons ev evs)
  have first: "budgetStep r st (previewStep st ev)"
    using Cons.prems by (simp add: previewStep_budget)
  have "budgetStep r (previewStep st ev) (foldl previewStep (previewStep st ev) evs)"
    using Cons.prems by (intro Cons.IH previewStep_inv) simp_all
  with first show ?case
    by (simp add: budgetStep_trans [of r st "previewStep st ev"])
qed

text \<open>
  Claim C1, as amended. From any reachable state of the preview, over any further run in
  which no payload other than \<open>r\<close> is delivered (with any effect runs, clicks, loads and
  settling downloads in between), at most one acknowledgment for \<open>r\<close> is emitted and at
  most one execution of \<open>r\<close> starts, however often \<open>r\<close> is redelivered.
\<close>

theorem at_most_once_until_other_payload:
  assumes "\<forall>ev\<in>set post. deliversOnly r ev"
  shows "acksFor r (runPreview post (runPreview pre initPreview))
           \<le> acksFor r (runPreview pre initPreview) + 1
       \<and> executionsFor r (runPreview post (runPreview pre initPreview))
           \<le> executionsFor r (runPreview pre initPreview) + 1"
proof -
  let ?st = "runPreview pre initPreview"
  have "previewInv ?st"
    unfolding runPreview_def by (rule foldl_previewStep_inv) (rule initPreview_inv)
  then have "budgetStep r ?st (runPreview post ?st)"
    unfolding runPreview_def [of post] using assms by (rule foldl_previewStep_budget)
  moreover have "ackBudget r ?st \<le> 1" and "execBudget r ?st \<le> 1"
    by (simp_all add: ackBudget_def execBudget_def)
  ultimately show ?thesis
    unfolding budgetStep_def by linarith
qed

theorem at_most_once_until_other_payload_witness:
  "acksFor (raw commandA) (runPreview (deliver commandA @ deliver commandA)
                             (runPreview [IframeLoad] initPreview)) = 1 \<and>
   executionsFor (raw commandA) (runPreview (deliver commandA @ deliver commandA)
                                   (runPreview [IframeLoad] initPreview)) = 1"
proof -
  have only: "\<forall>ev\<in>set (deliver commandA @ deliver commandA). deliversOnly (raw commandA) ev"
    by (simp add: deliver_def)
  have before: "acksFor (raw commandA) (runPreview [IframeLoad] initPreview) = 0"
    "executionsFor (raw commandA) (runPreview [IframeLoad] initPreview) = 0"
    by (simp_all add: acksFor_def executionsFor_def runPreview_def initPreview_def)
  have some: "1 \<le> acksFor (raw commandA) (runPreview (deliver commandA @ deliver commandA)
                             (runPreview [IframeLoad] initPreview))"
    "1 \<le> executionsFor (raw commandA) (runPreview (deliver commandA @ deliver commandA)
                                   (runPreview [IframeLoad] initPreview))"
    by code_simp+
  from at_most_once_until_other_payload [OF only, of "[IframeLoad]"] before some
  show ?thesis
    by simp
qed

text \<open>
  Claim C1 as stated fails: when payload \<open>b\<close> is delivered and executed between two
  deliveries of payload \<open>a\<close>, the second delivery of \<open>a\<close> is executed and acknowledged
  again.
\<close>

theorem redelivery_after_other_payload_reexecutes:
  "acksFor (raw commandA)
     (runPreview (IframeLoad # deliver commandA @ deliver commandB @ deliver commandA) initPreview) = 2 \<and>
   executionsFor (raw commandA)
     (runPreview (IframeLoad # deliver commandA @ deliver commandB @ deliver commandA) initPreview) = 2 \<and>
   printCalls
     (runPreview (IframeLoad # deliver commandA @ deliver commandB @ deliver commandA) initPreview) = 3"
  by code_simp

end
